theory Spec2Isabelle
  imports Main "HOL-Library.Word" "HOL-Library.Log_Nat" "HOL-Library.Product_Lexorder"
begin

section \<open>Go's float64\<close>

text \<open>
  The program computes its metrics in \<open>float64\<close>. A value of that type is a finite
  number, a negative zero, an infinity or a NaN. Finite values are kept as the rational
  they denote (\<open>Finite 0\<close> is the positive zero); every arithmetic operation computes the
  exact rational result and rounds it to the nearest binary64 number, ties to even, as
  IEEE 754 prescribes and Go inherits. Each operation is rounded on its own: the model
  does not fuse a multiplication with a following addition, which the Go specification
  permits a compiler to do and the amd64 compiler does not do by default.
\<close>

datatype float64 = Finite rat | NegZero | PosInf | NegInf | NaN

definition pow2 :: "int \<Rightarrow> rat" where
  "pow2 e = (if 0 \<le> e then 2 ^ nat e else 1 / 2 ^ nat (- e))"

text \<open>\<open>ilog2 a\<close> is the integer \<open>k\<close> with \<open>2 ^ k \<le> a < 2 ^ (k + 1)\<close>, for \<open>a > 0\<close>.\<close>

definition ilog2 :: "rat \<Rightarrow> int" where
  "ilog2 a = (if 1 \<le> a then bitlen \<lfloor>a\<rfloor> - 1 else - bitlen (\<lceil>1 / a\<rceil> - 1))"

text \<open>Rounding to the nearest integer, a tie going to the even neighbour.\<close>

definition rne :: "rat \<Rightarrow> int" where
  "rne q = (let f = \<lfloor>q\<rfloor>; r = q - of_int f in
     if r < 1 / 2 then f else if 1 / 2 < r then f + 1 else if even f then f else f + 1)"

text \<open>
  binary64 has 53 significant bits, the smallest spacing \<open>2 ^ - 1074\<close> (subnormals) and
  overflows at \<open>2 ^ 1024\<close>. A result that rounds to zero keeps the sign of the exact
  value.
\<close>

definition round64 :: "rat \<Rightarrow> float64" where
  "round64 q =
     (if q = 0 then Finite 0
      else let a = \<bar>q\<bar>;
               e = max (ilog2 a - 52) (- 1074);
               m = rne (a / pow2 e);
               v = of_int m * pow2 e
           in if pow2 1024 \<le> v then (if 0 < q then PosInf else NegInf)
              else if m = 0 then (if 0 < q then Finite 0 else NegZero)
              else Finite (if 0 < q then v else - v))"

definition is_nan :: "float64 \<Rightarrow> bool" where
  "is_nan x = (x = NaN)"

definition is_inf :: "float64 \<Rightarrow> bool" where
  "is_inf x = (x = PosInf \<or> x = NegInf)"

definition is_zero :: "float64 \<Rightarrow> bool" where
  "is_zero x = (x = Finite 0 \<or> x = NegZero)"

definition is_number :: "float64 \<Rightarrow> bool" where
  "is_number x = (\<not> is_nan x \<and> \<not> is_inf x)"

text \<open>The sign bit (\<open>True\<close> is negative) and the numeric value of a finite number.\<close>

fun signbit :: "float64 \<Rightarrow> bool" where
  "signbit (Finite q) = (q < 0)"
| "signbit NegZero = True"
| "signbit NegInf = True"
| "signbit PosInf = False"
| "signbit NaN = False"

fun valof :: "float64 \<Rightarrow> rat" where
  "valof (Finite q) = q"
| "valof _ = 0"

definition signed_zero :: "bool \<Rightarrow> float64" where
  "signed_zero neg = (if neg then NegZero else Finite 0)"

definition signed_inf :: "bool \<Rightarrow> float64" where
  "signed_inf neg = (if neg then NegInf else PosInf)"

fun f64_neg :: "float64 \<Rightarrow> float64" where
  "f64_neg (Finite q) = (if q = 0 then NegZero else Finite (- q))"
| "f64_neg NegZero = Finite 0"
| "f64_neg PosInf = NegInf"
| "f64_neg NegInf = PosInf"
| "f64_neg NaN = NaN"

definition f64_add :: "float64 \<Rightarrow> float64 \<Rightarrow> float64" where
  "f64_add x y =
     (if is_nan x \<or> is_nan y then NaN
      else if is_inf x then (if is_inf y \<and> signbit x \<noteq> signbit y then NaN else x)
      else if is_inf y then y
      else let s = valof x + valof y
           in if s = 0 then (if x = NegZero \<and> y = NegZero then NegZero else Finite 0)
              else round64 s)"

definition f64_sub :: "float64 \<Rightarrow> float64 \<Rightarrow> float64" where
  "f64_sub x y = f64_add x (f64_neg y)"

definition f64_mul :: "float64 \<Rightarrow> float64 \<Rightarrow> float64" where
  "f64_mul x y =
     (if is_nan x \<or> is_nan y then NaN
      else let neg = (signbit x \<noteq> signbit y)
           in if is_inf x \<or> is_inf y
              then (if is_zero x \<or> is_zero y then NaN else signed_inf neg)
              else if is_zero x \<or> is_zero y then signed_zero neg
              else round64 (valof x * valof y))"

definition f64_div :: "float64 \<Rightarrow> float64 \<Rightarrow> float64" where
  "f64_div x y =
     (if is_nan x \<or> is_nan y then NaN
      else let neg = (signbit x \<noteq> signbit y)
           in if is_inf x then (if is_inf y then NaN else signed_inf neg)
              else if is_inf y then signed_zero neg
              else if is_zero y then (if is_zero x then NaN else signed_inf neg)
              else if is_zero x then signed_zero neg
              else round64 (valof x / valof y))"

text \<open>
  Comparison: a NaN compares false with everything, the two zeros are equal, and the
  infinities lie below and above every finite number.
\<close>

fun rank :: "float64 \<Rightarrow> int" where
  "rank NegInf = - 1"
| "rank PosInf = 1"
| "rank _ = 0"

definition f64_lt :: "float64 \<Rightarrow> float64 \<Rightarrow> bool" where
  "f64_lt x y = (\<not> is_nan x \<and> \<not> is_nan y \<and>
     (rank x < rank y \<or> (rank x = rank y \<and> valof x < valof y)))"

definition f64_gt :: "float64 \<Rightarrow> float64 \<Rightarrow> bool" where
  "f64_gt x y = f64_lt y x"

definition f64_le :: "float64 \<Rightarrow> float64 \<Rightarrow> bool" where
  "f64_le x y = (\<not> is_nan x \<and> \<not> is_nan y \<and>
     (rank x < rank y \<or> (rank x = rank y \<and> valof x \<le> valof y)))"

text \<open>
  Go's \<open>int64\<close> and \<open>time.Duration\<close> are 64-bit two's complement integers;
  \<open>float64(n)\<close> rounds the integer to the nearest binary64 number. An untyped
  constant such as \<open>0.09\<close> becomes the nearest binary64 number as well.
\<close>

type_synonym int64 = "64 word"

definition f64_of_int64 :: "int64 \<Rightarrow> float64" where
  "f64_of_int64 n = round64 (of_int (sint n))"

definition f64_const :: "rat \<Rightarrow> float64" where
  "f64_const q = round64 q"

section \<open>Go values and the test document\<close>

text \<open>
  The values the program stores in a document or reads back from the backend, one
  constructor per Go type that occurs: \<open>int\<close>, \<open>int32\<close>, \<open>int64\<close>, \<open>float64\<close>,
  \<open>string\<close>, \<open>bool\<close>, \<open>[]byte\<close>, \<open>[]string\<close>, \<open>[]int\<close>,
  \<open>primitive.M\<close>, \<open>[]primitive.M\<close>, \<open>primitive.ObjectID\<close> and \<open>time.Time\<close>.
  A \<open>primitive.M\<close> is written as the list of its entries in the order of the source's
  literal; a \<open>primitive.D\<close> is an ordered list of key and value.
\<close>

type_synonym byte = "8 word"

datatype go_value =
    VInt int
  | VInt32 "32 word"
  | VInt64 int64
  | VFloat64 float64
  | VString string
  | VBool bool
  | VBytes "byte list"
  | VStrings "string list"
  | VInts "int list"
  | VMap "(string \<times> go_value) list"
  | VMaps "(string \<times> go_value) list list"
  | VObjectID "byte list"
  | VTime int

type_synonym go_map = "(string \<times> go_value) list"
type_synonym document = "(string \<times> go_value) list"

text \<open>\<open>strings.Repeat\<close> and the decimal digits that \<open>%d\<close> prints for a number \<open>\<ge> 0\<close>.\<close>

definition Repeat :: "string \<Rightarrow> nat \<Rightarrow> string" where
  "Repeat s count = concat (replicate count s)"

fun decimal :: "nat \<Rightarrow> string" where
  "decimal n = (if n < 10 then [char_of (48 + n)]
                else decimal (n div 10) @ [char_of (48 + n mod 10)])"

declare decimal.simps [simp del]

definition item :: "nat \<Rightarrow> go_map" where
  "item i =
     [(''id'', VInt (int i)),
      (''name'', VString (''Product_Item_Number_'' @ decimal i)),
      (''description'', VString ''This is a repeated item description that compresses efficiently with MongoDB compression algorithms''),
      (''price'', VFloat64 (f64_mul (f64_of_int64 (of_nat i)) (f64_const (199 / 100)))),
      (''metadata'', VMap
         [(''tags'', VStrings [''electronics'', ''home'', ''kitchen'', ''premium'']),
          (''categories'', VStrings [''main'', ''featured'', ''bestseller'']),
          (''features'', VStrings [''wireless'', ''bluetooth'', ''rechargeable'', ''smart''])]),
      (''reviews'', VMap
         [(''average_rating'', VFloat64 (f64_const (9 / 2))),
          (''total_reviews'', VInt 150),
          (''stars'', VInts [100, 200, 300, 250, 150])])]"

text \<open>
  The two loops of \<open>generateLargeDocument\<close>. Both write \<open>xs[i]\<close> only for
  \<open>i < len(xs)\<close>, where Go's indexing does not panic.
\<close>

function fill_items :: "nat \<Rightarrow> go_map list \<Rightarrow> go_map list" where
  "fill_items i items =
     (if i < 5000 then fill_items (i + 1) (items[i := item i]) else items)"
  by pat_completeness auto
termination
  by (relation "measure (\<lambda>(i, items). 5000 - i)") auto

declare fill_items.simps [simp del]

function fill_binary :: "nat \<Rightarrow> byte list \<Rightarrow> byte list" where
  "fill_binary i binaryData =
     (if i < length binaryData
      then fill_binary (i + 1) (binaryData[i := of_nat (i mod 256)])
      else binaryData)"
  by pat_completeness auto
termination
  by (relation "measure (\<lambda>(i, binaryData). length binaryData - i)") auto

declare fill_binary.simps [simp del]

text \<open>
  \<open>generateLargeDocument\<close> reads two things from outside: a fresh object identifier
  and the current time. They are its parameters here.
\<close>

definition generateLargeDocument :: "byte list \<Rightarrow> int \<Rightarrow> document" where
  "generateLargeDocument oid now =
     (let repetitiveText =
            Repeat ''This is highly compressible repetitive text pattern. '' 50000;
          items = fill_items 0 (replicate 5000 []);
          binaryData = fill_binary 0 (replicate 300000 0)
      in [(''_id'', VObjectID oid),
          (''description'', VString ''Large 4.7MB document for MongoDB compression testing''),
          (''timestamp'', VTime now),
          (''version'', VString ''1.0''),
          (''repetitive_text'', VString repetitiveText),
          (''product_items'', VMaps items),
          (''binary_data'', VBytes binaryData),
          (''metadata'', VMap
             [(''created_by'', VString ''compression-demo''),
              (''document_type'', VString ''performance_test''),
              (''size_category'', VString ''4.7MB''),
              (''compression_test'', VBool True)])])"

section \<open>The backend, as the program sees it\<close>

text \<open>
  A Go function that returns \<open>(T, error)\<close> returns a pair here, the error being the
  text of its message or \<open>None\<close> for \<open>nil\<close>. A function can also end in a run-time
  panic, which unwinds through its callers.
\<close>

type_synonym go_error = string

datatype go_panic =
    InterfaceConversion
  | IndexOutOfRange
  | NegativeRepeatCount
  | RepeatOverflow

datatype 'a outcome = Returned 'a | Panicked go_panic

text \<open>
  What the world answers during one connection: whether \<open>mongo.Connect\<close> and
  \<open>InsertOne\<close> fail, the time \<open>time.Since\<close> measures around the insert, and what
  decoding the reply to \<open>collStats\<close> gives: an error or a \<open>bson.M\<close>. The answers are
  indexed by the compressor list of the connection, which is different for every
  connection the program opens. \<open>bson.Marshal\<close> is a function of the document.
  The last field is the platform's answer where Go leaves one open: the \<open>int\<close> that
  converting a NaN, an infinity or a number beyond the range of \<open>int\<close> yields.
\<close>

record backend_reply =
  connect_err :: "go_error option"
  insert_err :: "go_error option"
  insert_elapsed :: int64
  stats_decode :: "go_error + go_map"

record world =
  Marshal :: "document \<Rightarrow> go_error + byte list"
  reply :: "string list \<Rightarrow> backend_reply"
  unrepresentable :: "float64 \<Rightarrow> int"

text \<open>What the program does to the world, in order.\<close>

datatype event =
    Connect "string list"
  | Disconnect "string list"
  | DropCollection string
  | InsertOne string document
  | CollStats string
  | DropDatabase string
  | Sleep nat

section \<open>The benchmark engine\<close>

record CompressionResult =
  Algorithm :: string
  OriginalSize :: int64
  CompressedSize :: int64
  ReductionPercent :: float64
  CompressionRatio :: float64
  InsertTime :: int64

definition getDocumentSize :: "world \<Rightarrow> document \<Rightarrow> int64 \<times> go_error option" where
  "getDocumentSize w doc =
     (case Marshal w doc of
        Inl err \<Rightarrow> (0, Some err)
      | Inr marshal \<Rightarrow> (of_nat (length marshal), None))"

text \<open>\<open>strings.ToLower\<close>, on the ASCII letters the algorithm names are made of.\<close>

definition ToLower :: "string \<Rightarrow> string" where
  "ToLower s = map (\<lambda>c. if 65 \<le> (of_char c :: nat) \<and> (of_char c :: nat) \<le> 90
                         then char_of ((of_char c :: nat) + 32) else c) s"

text \<open>
  \<open>testCompression\<close>. The deferred \<open>Disconnect\<close> runs on every way out once the
  connection exists, a panic included. The result of \<open>collection.Drop\<close> is ignored.
  The type assertion \<open>statsResult["storageSize"].(int64)\<close> has the one-value form: it
  panics when the key is missing or the value has another dynamic type.
\<close>

definition testCompression ::
  "world \<Rightarrow> string \<Rightarrow> string \<Rightarrow> document
     \<Rightarrow> (CompressionResult \<times> go_error option) outcome \<times> event list" where
  "testCompression w algorithm compressor doc =
     (let result = \<lparr>Algorithm = algorithm, OriginalSize = 0, CompressedSize = 0,
                     ReductionPercent = Finite 0, CompressionRatio = Finite 0,
                     InsertTime = 0\<rparr>
      in (case getDocumentSize w doc of
           (_, Some err) \<Rightarrow> (Returned (result, Some err), [])
         | (originalSize, None) \<Rightarrow>
            (let result = result\<lparr>OriginalSize := originalSize\<rparr>;
                 r = reply w [compressor]
             in (case connect_err r of
                  Some err \<Rightarrow> (Returned (result, Some err), [Connect [compressor]])
                | None \<Rightarrow>
                   (let collection = ''test_'' @ ToLower algorithm;
                        evs = [Connect [compressor], DropCollection collection,
                               InsertOne collection doc]
                    in (case insert_err r of
                         Some err \<Rightarrow>
                           (Returned (result, Some err), evs @ [Disconnect [compressor]])
                       | None \<Rightarrow>
                          (let result = result\<lparr>InsertTime := insert_elapsed r\<rparr>;
                               evs = evs @ [CollStats collection, Disconnect [compressor]]
                           in (case stats_decode r of
                                Inl err \<Rightarrow> (Returned (result, Some err), evs)
                              | Inr statsResult \<Rightarrow>
                                 (case map_of statsResult ''storageSize'' of
                                    Some (VInt64 storageSize) \<Rightarrow>
                                      (Returned
                                         (result\<lparr>CompressedSize := storageSize,
                                            ReductionPercent :=
                                              f64_mul
                                                (f64_sub (Finite 1)
                                                   (f64_div (f64_of_int64 storageSize)
                                                      (f64_of_int64 originalSize)))
                                                (Finite 100),
                                            CompressionRatio :=
                                              f64_div (f64_of_int64 originalSize)
                                                (f64_of_int64 storageSize)\<rparr>,
                                          None),
                                       evs)
                                  | _ \<Rightarrow> (Panicked InterfaceConversion, evs))))))))))"

text \<open>
  \<open>runAllCompressionTests\<close>: the table of algorithms and the loop over it, with the
  results collected so far as the loop's state. The loop sleeps 100 ms after a run that
  succeeded.
\<close>

definition tests :: "(string \<times> string) list" where
  "tests = [(''Snappy'', ''snappy''), (''Zlib'', ''zlib''), (''Zstd'', ''zstd'')]"

fun run_tests ::
  "world \<Rightarrow> document \<Rightarrow> (string \<times> string) list \<Rightarrow> CompressionResult list
     \<Rightarrow> (CompressionResult list \<times> go_error option) outcome \<times> event list" where
  "run_tests w doc [] results = (Returned (results, None), [])"
| "run_tests w doc ((name, compressor) # rest) results =
     (case testCompression w name compressor doc of
        (Panicked p, evs) \<Rightarrow> (Panicked p, evs)
      | (Returned (result, Some err), evs) \<Rightarrow>
          (Returned ([], Some (name @ '' test failed: '' @ err)), evs)
      | (Returned (result, None), evs) \<Rightarrow>
          (case run_tests w doc rest (results @ [result]) of
             (out, evs') \<Rightarrow> (out, evs @ [Sleep 100] @ evs')))"

definition runAllCompressionTests ::
  "world \<Rightarrow> document
     \<Rightarrow> (CompressionResult list \<times> go_error option) outcome \<times> event list" where
  "runAllCompressionTests w doc = run_tests w doc tests []"

section \<open>The reporter\<close>

text \<open>
  The reporter prints; the model keeps the numbers it computes and hands to
  \<open>Printf\<close>, and the places where it can panic. The text written to the terminal is
  not modelled.
\<close>

text \<open>
  \<open>int(x)\<close> for a \<open>float64\<close> discards the fraction. \<open>displayComparisonChart\<close>
  draws \<open>int(ReductionPercent / 2)\<close> blocks of three bytes each with
  \<open>strings.Repeat\<close>, which panics on a negative count and on a length beyond \<open>int\<close>.
\<close>

definition discard_fraction :: "rat \<Rightarrow> int" where
  "discard_fraction q = (if 0 \<le> q then \<lfloor>q\<rfloor> else \<lceil>q\<rceil>)"

definition f64_to_int :: "world \<Rightarrow> float64 \<Rightarrow> int" where
  "f64_to_int w x =
     (if is_nan x \<or> is_inf x then unrepresentable w x
      else if - (2 ^ 63) \<le> discard_fraction (valof x) \<and> discard_fraction (valof x) < 2 ^ 63
           then discard_fraction (valof x)
           else unrepresentable w x)"

fun displayComparisonChart ::
  "world \<Rightarrow> CompressionResult list \<Rightarrow> (string \<times> int) list outcome" where
  "displayComparisonChart w [] = Returned []"
| "displayComparisonChart w (result # rest) =
     (let bars = f64_to_int w (f64_div (ReductionPercent result) (Finite 2))
      in if bars < 0 then Panicked NegativeRepeatCount
         else if 2 ^ 63 \<le> 3 * bars then Panicked RepeatOverflow
         else (case displayComparisonChart w rest of
                 Panicked p \<Rightarrow> Panicked p
               | Returned rows \<Rightarrow> Returned ((Algorithm result, bars) # rows)))"

record traffic_row =
  traffic_algorithm :: string
  traffic_total :: float64
  traffic_saved :: float64
  traffic_percent :: float64

record cost_row =
  cost_algorithm :: string
  cost_month :: float64
  cost_saved :: float64
  cost_percent :: float64

record cost_analysis =
  no_compression :: float64
  cost_rows :: "cost_row list"

record performance_analysis =
  best_compression :: CompressionResult
  fastest_insert :: CompressionResult
  traffic :: "traffic_row list"
  costs :: cost_analysis

text \<open>\<open>displayCostAnalysis\<close>, with its two constants.\<close>

definition costPerGB :: float64 where
  "costPerGB = f64_const (9 / 100)"

definition monthlyTransfers :: int64 where
  "monthlyTransfers = 1000000"

definition cost_of :: "float64 \<Rightarrow> CompressionResult \<Rightarrow> cost_row" where
  "cost_of originalCost result =
     (let compressedSizeMB =
            f64_div (f64_div (f64_of_int64 (CompressedSize result)) (Finite 1024))
              (Finite 1024);
          costGB = f64_div (f64_mul compressedSizeMB (f64_of_int64 monthlyTransfers))
                     (Finite 1024);
          cost = f64_mul costGB costPerGB;
          savings = f64_sub originalCost cost
      in \<lparr>cost_algorithm = Algorithm result, cost_month = cost, cost_saved = savings,
          cost_percent = f64_mul (f64_div savings originalCost) (Finite 100)\<rparr>)"

definition displayCostAnalysis :: "CompressionResult list \<Rightarrow> float64 \<Rightarrow> cost_analysis" where
  "displayCostAnalysis results originalSizeMB =
     (let originalCostGB =
            f64_div (f64_mul originalSizeMB (f64_of_int64 monthlyTransfers)) (Finite 1024);
          originalCost = f64_mul originalCostGB costPerGB
      in \<lparr>no_compression = originalCost, cost_rows = map (cost_of originalCost) results\<rparr>)"

text \<open>
  \<open>displayPerformanceAnalysis\<close>: the selection loop, with the pair
  \<open>(bestCompression, fastest)\<close> as its state, the traffic simulation and the cost
  analysis. Reading \<open>results[0]\<close> of an empty slice panics. Durations are compared as
  signed integers.
\<close>

fun select_loop ::
  "CompressionResult list \<Rightarrow> CompressionResult \<times> CompressionResult
     \<Rightarrow> CompressionResult \<times> CompressionResult" where
  "select_loop [] (bestCompression, fastest) = (bestCompression, fastest)"
| "select_loop (result # rest) (bestCompression, fastest) =
     select_loop rest
       (if f64_gt (ReductionPercent result) (ReductionPercent bestCompression)
        then result else bestCompression,
        if sint (InsertTime result) < sint (InsertTime fastest)
        then result else fastest)"

definition traffic_of :: "float64 \<Rightarrow> CompressionResult \<Rightarrow> traffic_row" where
  "traffic_of originalSizeMB result =
     (let totalMB =
            f64_mul
              (f64_div (f64_div (f64_of_int64 (CompressedSize result)) (Finite 1024))
                 (Finite 1024))
              (Finite 1000);
          savedMB = f64_sub (f64_mul originalSizeMB (Finite 1000)) totalMB;
          savingsPercent =
            f64_mul (f64_div savedMB (f64_mul originalSizeMB (Finite 1000))) (Finite 100)
      in \<lparr>traffic_algorithm = Algorithm result, traffic_total = totalMB,
          traffic_saved = savedMB, traffic_percent = savingsPercent\<rparr>)"

definition displayPerformanceAnalysis ::
  "CompressionResult list \<Rightarrow> performance_analysis outcome" where
  "displayPerformanceAnalysis results =
     (case results of
        [] \<Rightarrow> Panicked IndexOutOfRange
      | first # _ \<Rightarrow>
          (case select_loop results (first, first) of
             (bestCompression, fastest) \<Rightarrow>
               (let originalSizeMB =
                      f64_div (f64_div (f64_of_int64 (OriginalSize first)) (Finite 1024))
                        (Finite 1024)
                in Returned
                     \<lparr>best_compression = bestCompression, fastest_insert = fastest,
                      traffic = map (traffic_of originalSizeMB) results,
                      costs = displayCostAnalysis results originalSizeMB\<rparr>)))"

record report =
  header_mb :: float64
  chart :: "(string \<times> int) list"
  analysis :: performance_analysis

definition displayResults ::
  "world \<Rightarrow> CompressionResult list \<Rightarrow> float64 \<Rightarrow> report outcome" where
  "displayResults w results originalSizeMB =
     (case displayComparisonChart w results of
        Panicked p \<Rightarrow> Panicked p
      | Returned rows \<Rightarrow>
          (case displayPerformanceAnalysis results of
             Panicked p \<Rightarrow> Panicked p
           | Returned a \<Rightarrow>
               Returned \<lparr>header_mb = originalSizeMB, chart = rows, analysis = a\<rparr>))"

section \<open>The program\<close>

text \<open>
  \<open>main\<close> ends in one of three ways: it completes, \<open>log.Fatalf\<close> ends the process
  (deferred calls do not run), or a panic unwinds it (deferred calls run). Its own
  connection has no compressor list.
\<close>

datatype exit_status = Completed | Fatal string | Crashed go_panic

record run =
  status :: exit_status
  events :: "event list"
  reported :: "report option"

definition main :: "world \<Rightarrow> byte list \<Rightarrow> int \<Rightarrow> run" where
  "main w oid now =
     (case connect_err (reply w []) of
        Some err \<Rightarrow>
          \<lparr>status = Fatal (''Failed to connect to MongoDB: '' @ err),
           events = [Connect []], reported = None\<rparr>
      | None \<Rightarrow>
         (let doc = generateLargeDocument oid now
          in (case getDocumentSize w doc of
               (_, Some err) \<Rightarrow>
                 \<lparr>status = Fatal (''Failed to get document size: '' @ err),
                  events = [Connect []], reported = None\<rparr>
             | (originalSize, None) \<Rightarrow>
                (let originalSizeMB =
                       f64_div (f64_div (f64_of_int64 originalSize) (Finite 1024))
                         (Finite 1024)
                 in (case runAllCompressionTests w doc of
                      (Panicked p, evs) \<Rightarrow>
                        \<lparr>status = Crashed p,
                         events = Connect [] # evs @ [Disconnect []], reported = None\<rparr>
                    | (Returned (_, Some err), evs) \<Rightarrow>
                        \<lparr>status = Fatal (''Compression tests failed: '' @ err),
                         events = Connect [] # evs, reported = None\<rparr>
                    | (Returned (results, None), evs) \<Rightarrow>
                       (case displayResults w results originalSizeMB of
                          Panicked p \<Rightarrow>
                            \<lparr>status = Crashed p,
                             events = Connect [] # evs @ [Disconnect []],
                             reported = None\<rparr>
                        | Returned rep \<Rightarrow>
                            \<lparr>status = Completed,
                             events = Connect [] # evs
                               @ [DropDatabase ''compression_demo'', Disconnect []],
                             reported = Some rep\<rparr>))))))"

section \<open>Vocabulary of the properties\<close>

text \<open>
  One run of the driver for a row \<open>(name, compressor)\<close> of the table, the result of a
  run that returned without error, the error of a run that returned one, and the
  events of a run.
\<close>

definition driver ::
  "world \<Rightarrow> document \<Rightarrow> string \<times> string
     \<Rightarrow> (CompressionResult \<times> go_error option) outcome \<times> event list" where
  "driver w doc t = testCompression w (fst t) (snd t) doc"

fun returned_result ::
  "(CompressionResult \<times> go_error option) outcome \<Rightarrow> CompressionResult option" where
  "returned_result (Returned (r, None)) = Some r"
| "returned_result _ = None"

fun returned_error ::
  "(CompressionResult \<times> go_error option) outcome \<Rightarrow> go_error option" where
  "returned_error (Returned (r, Some err)) = Some err"
| "returned_error _ = None"

definition succeeds :: "world \<Rightarrow> document \<Rightarrow> string \<times> string \<Rightarrow> bool" where
  "succeeds w doc t = (returned_result (fst (driver w doc t)) \<noteq> None)"

definition run_events :: "world \<Rightarrow> document \<Rightarrow> string \<times> string \<Rightarrow> event list" where
  "run_events w doc t = snd (driver w doc t)"

text \<open>
  Worlds to run the program in: one where every call succeeds, the encoded document
  has \<open>n\<close> bytes and \<open>collStats\<close> reports \<open>v\<close> as the storage size; and one where the
  insert over the zlib connection is rejected.
\<close>

definition quiet_reply :: "go_value \<Rightarrow> backend_reply" where
  "quiet_reply v =
     \<lparr>connect_err = None, insert_err = None, insert_elapsed = 250000000,
      stats_decode = Inr [(''ns'', VString ''compression_demo.test''), (''storageSize'', v)]\<rparr>"

definition quiet_world :: "nat \<Rightarrow> go_value \<Rightarrow> world" where
  "quiet_world n v =
     \<lparr>Marshal = (\<lambda>_. Inr (replicate n 0)), reply = (\<lambda>_. quiet_reply v),
      unrepresentable = (\<lambda>_. - (2 ^ 63))\<rparr>"

definition zlib_rejects :: world where
  "zlib_rejects =
     \<lparr>Marshal = (\<lambda>_. Inr (replicate 1000 0)),
      reply = (\<lambda>cs. if cs = [''zlib'']
                     then (quiet_reply (VInt64 500))\<lparr>insert_err := Some ''write rejected''\<rparr>
                     else quiet_reply (VInt64 500)),
      unrepresentable = (\<lambda>_. - (2 ^ 63))\<rparr>"

definition sample_oid :: "byte list" where
  "sample_oid = replicate 12 0"

definition sample_doc :: document where
  "sample_doc = generateLargeDocument sample_oid 0"

text \<open>
  Floats that are not NaN are ordered like the pairs of their rank and value.
\<close>

definition fkey :: "float64 \<Rightarrow> int \<times> rat" where
  "fkey x = (rank x, valof x)"

text \<open>
  Three results as the driver computes them, the second and third tied in reduction and
  in insertion time.
\<close>

definition tie_results :: "CompressionResult list" where
  "tie_results =
     [\<lparr>Algorithm = ''Snappy'', OriginalSize = 4000000, CompressedSize = 3000000,
       ReductionPercent = Finite 25,
       CompressionRatio = Finite (6004799503160661 / 4503599627370496),
       InsertTime = 30000000\<rparr>,
      \<lparr>Algorithm = ''Zlib'', OriginalSize = 4000000, CompressedSize = 2000000,
       ReductionPercent = Finite 50, CompressionRatio = Finite 2,
       InsertTime = 20000000\<rparr>,
      \<lparr>Algorithm = ''Zstd'', OriginalSize = 4000000, CompressedSize = 2000000,
       ReductionPercent = Finite 50, CompressionRatio = Finite 2,
       InsertTime = 20000000\<rparr>]"

text \<open>
  A size in the reporter's display unit, and the two projections in the words of the
  specification: the bandwidth of \<open>transfers\<close> transfers of a payload of \<open>mb\<close>
  megabytes, and the price of shipping them at the fixed price per gigabyte.
\<close>

definition megabytes :: "int64 \<Rightarrow> float64" where
  "megabytes n = f64_div (f64_div (f64_of_int64 n) (Finite 1024)) (Finite 1024)"

definition spec_bandwidth :: "float64 \<Rightarrow> float64 \<Rightarrow> float64" where
  "spec_bandwidth transfers mb = f64_mul mb transfers"

definition spec_cost :: "float64 \<Rightarrow> float64 \<Rightarrow> float64" where
  "spec_cost transfers mb =
     f64_mul (f64_div (f64_mul mb transfers) (Finite 1024)) (f64_const (9 / 100))"

text \<open>A result of two megabytes compressed to one.\<close>

definition megabyte_result :: CompressionResult where
  "megabyte_result =
     \<lparr>Algorithm = ''Zlib'', OriginalSize = 2097152, CompressedSize = 1048576,
      ReductionPercent = Finite 50, CompressionRatio = Finite 2, InsertTime = 20000000\<rparr>"

text \<open>
  \<open>close_to tol x d\<close>: the float \<open>x\<close> is a finite number at most \<open>tol\<close> away from \<open>d\<close>.
  With \<open>tol\<close> half a cent, \<open>x\<close> is printed as \<open>d\<close> by \<open>%.2f\<close>; a size in megabytes
  within \<open>1 / 200\<close> of 2.26 is printed as 2.26 MB.
\<close>

definition close_to :: "rat \<Rightarrow> float64 \<Rightarrow> rat \<Rightarrow> bool" where
  "close_to tol x d = (case x of Finite q \<Rightarrow> \<bar>q - d\<bar> \<le> tol | _ \<Rightarrow> False)"

text \<open>
  Two results of a document of 4928307 bytes, the whole number of bytes nearest to
  4.7 MB. The first is compressed to 2369782 bytes, the whole number of bytes nearest to
  2.26 MB; the second to 2369470 bytes, 2.2597 MB, which the reporter prints as 2.26 MB.
\<close>

definition result_226 :: CompressionResult where
  "result_226 =
     \<lparr>Algorithm = ''Zlib'', OriginalSize = 4928307, CompressedSize = 2369782,
      ReductionPercent = Finite (3653185387946769 / 70368744177664),
      CompressionRatio = Finite (4682945850877297 / 2251799813685248),
      InsertTime = 20000000\<rparr>"

definition result_printed_226 :: CompressionResult where
  "result_printed_226 =
     \<lparr>Algorithm = ''Zlib'', OriginalSize = 4928307, CompressedSize = 2369470,
      ReductionPercent = Finite (7307261753187909 / 140737488355328),
      CompressionRatio = Finite (1170890619461705 / 562949953421312),
      InsertTime = 20000000\<rparr>"

text \<open>
  The four figures of the specification's example, in dollars and percent: the cost
  without compression, the cost of the algorithm, its saving, and the saving in percent.
  \<open>shows_figures tol ptol a figures\<close>: the cost analysis \<open>a\<close> has one row, its three
  amounts are within \<open>tol\<close> of the figures, and its percentage within \<open>ptol\<close>.
\<close>

definition spec_figures :: "rat \<times> rat \<times> rat \<times> rat" where
  "spec_figures = (41309 / 100, 19861 / 100, 21448 / 100, 519 / 10)"

definition shows_figures ::
  "rat \<Rightarrow> rat \<Rightarrow> cost_analysis \<Rightarrow> rat \<times> rat \<times> rat \<times> rat \<Rightarrow> bool" where
  "shows_figures tol ptol a figures =
     (case figures of (original, cost, saving, percent) \<Rightarrow>
        close_to tol (no_compression a) original
        \<and> (case cost_rows a of
             [row] \<Rightarrow> close_to tol (cost_month row) cost
                      \<and> close_to tol (cost_saved row) saving
                      \<and> close_to ptol (cost_percent row) percent
           | _ \<Rightarrow> False))"

text \<open>The documents the program sent to the backend, in order.\<close>

fun inserted :: "event list \<Rightarrow> (string \<times> document) list" where
  "inserted [] = []"
| "inserted (InsertOne collection doc # evs) = (collection, doc) # inserted evs"
| "inserted (_ # evs) = inserted evs"

section \<open>Evaluating the model\<close>

lemma bitlen_numeral_simps:
  "bitlen 1 = 1"
  "bitlen (numeral Num.One) = 1"
  "bitlen (numeral (Num.Bit0 n)) = bitlen (numeral n) + 1"
  "bitlen (numeral (Num.Bit1 n)) = bitlen (numeral n) + 1"
  by (subst compute_bitlen, simp)+

lemma floor_rat_numeral_div:
  "\<lfloor>numeral a / numeral b :: rat\<rfloor> = numeral a div numeral b"
  using floor_divide_of_int_eq [of "numeral a" "numeral b", where ?'a = rat] by simp

lemma ceiling_rat_numeral_div:
  "\<lceil>numeral a / numeral b :: rat\<rceil> = - (- numeral a div numeral b)"
  using ceiling_divide_eq_div [of "numeral a" "numeral b", where ?'a = rat] by simp

lemma floor_rat_one_div:
  "\<lfloor>1 / numeral b :: rat\<rfloor> = 1 div numeral b"
  using floor_divide_of_int_eq [of 1 "numeral b", where ?'a = rat] by simp

lemmas round64_eval =
  round64_def rne_def ilog2_def pow2_def Let_def bitlen_numeral_simps
  floor_rat_numeral_div ceiling_rat_numeral_div floor_rat_one_div

lemmas f64_eval =
  f64_of_int64_def f64_const_def f64_add_def f64_sub_def f64_mul_def f64_div_def
  is_nan_def is_inf_def is_zero_def signed_zero_def signed_inf_def

lemma ToLower_tests:
  "ToLower ''Snappy'' = ''snappy''" "ToLower ''Zlib'' = ''zlib''" "ToLower ''Zstd'' = ''zstd''"
  by (simp_all add: ToLower_def char_of_def bit_Suc_0_iff)

lemmas driver_eval =
  driver_def testCompression_def getDocumentSize_def quiet_world_def quiet_reply_def
  zlib_rejects_def ToLower_tests f64_eval round64_eval

text \<open>The sample results are what the driver computes for their sizes.\<close>

lemma samples_from_driver:
  "fst (testCompression (quiet_world 4928307 (VInt64 2369782)) ''Zlib'' ''zlib'' sample_doc)
     = Returned (result_226\<lparr>InsertTime := 250000000\<rparr>, None)"
  "fst (testCompression (quiet_world 4928307 (VInt64 2369470)) ''Zlib'' ''zlib'' sample_doc)
     = Returned (result_printed_226\<lparr>InsertTime := 250000000\<rparr>, None)"
  "fst (testCompression (quiet_world 4000000 (VInt64 3000000)) ''Snappy'' ''snappy'' sample_doc)
     = Returned ((tie_results ! 0)\<lparr>InsertTime := 250000000\<rparr>, None)"
  "fst (testCompression (quiet_world 4000000 (VInt64 2000000)) ''Zlib'' ''zlib'' sample_doc)
     = Returned ((tie_results ! 1)\<lparr>InsertTime := 250000000\<rparr>, None)"
  by (simp_all add: result_226_def result_printed_226_def tie_results_def driver_eval)

section \<open>Rounding\<close>

lemma pow2_power_int: "pow2 e = power_int 2 e"
  by (simp add: pow2_def power_int_def field_simps)

lemma pow2_pos: "0 < pow2 e"
  by (simp add: pow2_power_int)

lemma pow2_add: "pow2 (a + b) = pow2 a * pow2 b"
  by (simp add: pow2_power_int power_int_add)

lemma pow2_mono: "a \<le> b \<Longrightarrow> pow2 a \<le> pow2 b"
  by (simp add: pow2_power_int power_int_increasing)

lemma pow2_nat: "0 \<le> e \<Longrightarrow> pow2 e = of_int (2 ^ nat e)"
  by (simp add: pow2_def)

lemma pow2_neg: "e \<le> 0 \<Longrightarrow> pow2 e = 1 / of_int (2 ^ nat (- e))"
  by (cases "e = 0") (simp_all add: pow2_def)

lemma ilog2_bounds:
  assumes "0 < a"
  shows "pow2 (ilog2 a) \<le> a \<and> a < pow2 (ilog2 a + 1)"
proof (cases "1 \<le> a")
  case True
  define n where "n = \<lfloor>a\<rfloor>"
  have n: "0 < n" "of_int n \<le> a" "a < of_int (n + 1)"
    unfolding n_def using True by (simp, linarith, linarith)
  from bitlen_bounds [OF n(1)] have b: "2 ^ nat (bitlen n - 1) \<le> n" "n < 2 ^ nat (bitlen n)"
    by simp_all
  have pos: "1 \<le> bitlen n"
    using n(1) by (simp add: bitlen_alt_def)
  have "pow2 (bitlen n - 1) = of_int (2 ^ nat (bitlen n - 1))"
    using pos by (simp add: pow2_nat)
  also have "\<dots> \<le> of_int n" using b(1) by (simp only: of_int_le_iff)
  finally have lo: "pow2 (bitlen n - 1) \<le> a" using n(2) by linarith
  have "of_int (n + 1) \<le> (of_int (2 ^ nat (bitlen n)) :: rat)"
    using b(2) by (simp only: of_int_le_iff)
  also have "\<dots> = pow2 (bitlen n - 1 + 1)" using pos by (simp add: pow2_nat)
  finally have hi: "a < pow2 (bitlen n - 1 + 1)" using n(3) by linarith
  from lo hi True show ?thesis by (simp add: ilog2_def n_def)
next
  case False
  define c where "c = \<lceil>1 / a\<rceil>"
  from False assms have b1: "1 < 1 / a" by simp
  have c: "1 / a \<le> of_int c" "of_int (c - 1) < 1 / a"
    unfolding c_def by linarith+
  from b1 c(1) have "1 < (of_int c :: rat)" by simp
  then have c1: "0 < c - 1" by simp
  define j where "j = bitlen (c - 1)"
  from bitlen_bounds [OF c1] have b: "2 ^ nat (j - 1) \<le> c - 1" "c - 1 < 2 ^ nat j"
    by (simp_all add: j_def)
  have pos: "1 \<le> j"
    using c1 by (simp add: bitlen_alt_def j_def)
  have "of_int c \<le> (of_int (2 ^ nat j) :: rat)"
    using b(2) by (simp only: of_int_le_iff)
  with c(1) have "1 / a \<le> of_int (2 ^ nat j)" by linarith
  then have "1 / of_int (2 ^ nat j) \<le> a"
    using assms by (simp add: field_simps)
  then have lo: "pow2 (- j) \<le> a"
    using pos by (simp add: pow2_neg)
  have "(of_int (2 ^ nat (j - 1)) :: rat) \<le> of_int (c - 1)"
    using b(1) by (simp only: of_int_le_iff)
  with c(2) have "of_int (2 ^ nat (j - 1)) < 1 / a" by linarith
  then have "a < 1 / of_int (2 ^ nat (j - 1))"
    using assms by (simp add: field_simps)
  then have hi: "a < pow2 (- j + 1)"
    using pos pow2_neg [of "- j + 1"] by simp
  from lo hi False show ?thesis by (simp add: ilog2_def c_def j_def)
qed

lemma rne_error: "\<bar>of_int (rne x) - x\<bar> \<le> 1 / 2"
proof -
  define f where "f = \<lfloor>x\<rfloor>"
  define r where "r = x - of_int f"
  have r: "0 \<le> r" "r < 1" unfolding r_def f_def by linarith+
  have x: "x = of_int f + r" by (simp add: r_def)
  have "rne x = (if r < 1 / 2 then f else if 1 / 2 < r then f + 1
                 else if even f then f else f + 1)"
    by (simp add: rne_def Let_def f_def r_def)
  then show ?thesis
    using r by (auto simp: x abs_if)
qed

lemma rne_lower: "of_int n \<le> x \<Longrightarrow> n \<le> rne x"
proof -
  assume "of_int n \<le> x"
  then have "n \<le> \<lfloor>x\<rfloor>" by (simp add: le_floor_iff)
  then show ?thesis by (auto simp: rne_def Let_def)
qed

lemma rne_upper: "x \<le> of_int n \<Longrightarrow> rne x \<le> n"
proof -
  assume a: "x \<le> of_int n"
  show ?thesis
  proof (cases "x = of_int n")
    case True
    then show ?thesis by (simp add: rne_def Let_def)
  next
    case False
    with a have "x < of_int n" by simp
    then have "\<lfloor>x\<rfloor> < n" by (simp add: floor_less_iff)
    then show ?thesis by (auto simp: rne_def Let_def)
  qed
qed


lemma pow2_less_cancel: "pow2 a < pow2 b \<Longrightarrow> a < b"
  using pow2_mono [of b a] by (cases "a < b") simp_all

lemma pow2_half: "pow2 e / 2 = pow2 (e - 1)"
  using pow2_add [of "e - 1" 1] by (simp add: pow2_def)

lemma round64_positive:
  assumes "0 < q" and "q < pow2 1023"
  shows "\<exists>v. round64 q = Finite v \<and> 0 \<le> v
           \<and> \<bar>v - q\<bar> \<le> q * pow2 (- 53) + pow2 (- 1075)
           \<and> (pow2 (- 1022) \<le> q \<longrightarrow> 0 < v \<and> \<bar>v - q\<bar> \<le> q * pow2 (- 53))"
proof -
  define k where "k = ilog2 q"
  define e where "e = max (k - 52) (- 1074)"
  define x where "x = q / pow2 e"
  define m where "m = rne x"
  define v where "v = of_int m * pow2 e"
  from ilog2_bounds [OF assms(1)] have k: "pow2 k \<le> q" "q < pow2 (k + 1)"
    by (simp_all add: k_def)
  from k(1) assms(2) have "pow2 k < pow2 1023" by simp
  then have k_hi: "k \<le> 1022" using pow2_less_cancel [of k 1023] by simp
  have pe: "0 < pow2 e" by (rule pow2_pos)
  have q: "q = x * pow2 e" using pe by (simp add: x_def)
  have x0: "0 \<le> x" using assms(1) pe by (simp add: x_def)
  then have m0: "0 \<le> m" using rne_lower [of 0 x] by (simp add: m_def)
  have "k + 1 \<le> e + 53" by (simp add: e_def)
  then have "pow2 (k + 1) \<le> pow2 (e + 53)" by (rule pow2_mono)
  with k(2) have "q < pow2 e * pow2 53" by (simp add: pow2_add)
  then have "x < pow2 53" using pe by (simp add: x_def field_simps)
  then have "x \<le> of_int (2 ^ 53)" by (simp add: pow2_def)
  then have m_hi: "m \<le> 2 ^ 53" unfolding m_def by (rule rne_upper)
  have p53: "pow2 53 = of_int (2 ^ 53)" by (simp add: pow2_def)
  have "v \<le> of_int (2 ^ 53) * pow2 e"
    unfolding v_def using m_hi pe by (simp only: mult_le_cancel_right_pos of_int_le_iff)
  also have "\<dots> = pow2 (e + 53)"
    by (simp only: p53 [symmetric] pow2_add mult.commute)
  also have "\<dots> \<le> pow2 1023" using k_hi by (intro pow2_mono) (simp add: e_def)
  also have "\<dots> < pow2 1024" by (simp add: pow2_def)
  finally have no_overflow: "\<not> pow2 1024 \<le> v" by simp
  have v0: "0 \<le> v" using m0 pe by (simp add: v_def)
  have r: "round64 q = Finite v"
  proof (cases "m = 0")
    case True
    then have "v = 0" by (simp add: v_def)
    with True no_overflow assms(1) show ?thesis
      unfolding round64_def Let_def
      using k_def e_def x_def m_def v_def by simp
  next
    case False
    with no_overflow assms(1) show ?thesis
      unfolding round64_def Let_def
      using k_def e_def x_def m_def v_def by simp
  qed
  have "\<bar>v - q\<bar> = \<bar>of_int m - x\<bar> * pow2 e"
    using pe by (simp add: v_def q abs_mult flip: left_diff_distrib)
  also have "\<dots> \<le> 1 / 2 * pow2 e"
    using rne_error [of x] pe unfolding m_def by (intro mult_right_mono) simp_all
  also have "\<dots> = pow2 (e - 1)" using pow2_half [of e] by simp
  finally have err: "\<bar>v - q\<bar> \<le> pow2 (e - 1)" .
  have normal_err: "\<bar>v - q\<bar> \<le> q * pow2 (- 53)" if "e = k - 52"
  proof -
    have "pow2 (e - 1) = pow2 k * pow2 (- 53)"
      using pow2_add [of k "- 53"] that by simp
    also have "\<dots> \<le> q * pow2 (- 53)"
      using k(1) pow2_pos [of "- 53"] by (intro mult_right_mono) simp_all
    finally show ?thesis using err by simp
  qed
  have sum_err: "\<bar>v - q\<bar> \<le> q * pow2 (- 53) + pow2 (- 1075)"
  proof (cases "e = k - 52")
    case True
    from normal_err [OF True] pow2_pos [of "- 1075"] show ?thesis by simp
  next
    case False
    then have "e = - 1074" by (simp add: e_def max_def split: if_splits)
    with err have "\<bar>v - q\<bar> \<le> pow2 (- 1075)" by simp
    moreover have "0 \<le> q * pow2 (- 53)" using assms(1) pow2_pos [of "- 53"] by simp
    ultimately show ?thesis by simp
  qed
  have normal: "0 < v \<and> \<bar>v - q\<bar> \<le> q * pow2 (- 53)" if n: "pow2 (- 1022) \<le> q"
  proof -
    from n k(2) have "pow2 (- 1022) < pow2 (k + 1)" by simp
    then have "- 1022 < k + 1" by (rule pow2_less_cancel)
    then have e: "e = k - 52" by (simp add: e_def)
    have "pow2 52 * pow2 e = pow2 k" using pow2_add [of 52 e] e by simp
    with k(1) have "pow2 52 * pow2 e \<le> q" by simp
    then have "pow2 52 \<le> x" using pe by (simp add: x_def field_simps)
    then have "of_int (2 ^ 52) \<le> x" by (simp add: pow2_def)
    then have "2 ^ 52 \<le> m" unfolding m_def by (rule rne_lower)
    then have "0 < m" by simp
    then have "0 < v" using pe by (simp add: v_def)
    with normal_err [OF e] show ?thesis by simp
  qed
  from r v0 sum_err normal show ?thesis by blast
qed

lemma f64_of_int64_positive:
  assumes "0 < sint n"
  shows "\<exists>v. f64_of_int64 n = Finite v \<and> 0 < v
           \<and> \<bar>v - of_int (sint n)\<bar> \<le> of_int (sint n) * pow2 (- 53)"
proof -
  define q :: rat where "q = of_int (sint n)"
  have "sint n < 2 ^ 63" using sint_lt [of n] by simp
  then have "q < of_int (2 ^ 63)" unfolding q_def by (simp only: of_int_less_iff)
  also have "\<dots> < pow2 1023" by (simp add: pow2_def)
  finally have hi: "q < pow2 1023" .
  have "1 \<le> sint n" using assms by simp
  then have one: "1 \<le> q" unfolding q_def by (simp only: of_int_1_le_iff)
  then have lo: "0 < q" by simp
  have "pow2 (- 1022) \<le> 1" by (simp add: pow2_def)
  with one have "pow2 (- 1022) \<le> q" by simp
  with round64_positive [OF lo hi] have
    "\<exists>v. round64 q = Finite v \<and> 0 < v \<and> \<bar>v - q\<bar> \<le> q * pow2 (- 53)"
    by blast
  then show ?thesis
    unfolding f64_of_int64_def q_def .
qed

section \<open>The error of the operations\<close>

text \<open>
  Each operation on numbers returns the exact result with a relative error of at most
  \<open>2 ^ - 53\<close>, plus \<open>2 ^ - 1075\<close> where the result is subnormal, as long as the exact
  result is far from overflow.
\<close>

lemma round64_not_nan: "round64 q \<noteq> NaN"
  by (simp add: round64_def Let_def)

lemma round64_negative:
  assumes "q < 0"
  shows "round64 q = f64_neg (round64 (- q))"
proof -
  have "pow2 e \<noteq> 0" for e using pow2_pos [of e] by simp
  then show ?thesis
    using assms by (simp add: round64_def Let_def)
qed

lemma round64_error:
  assumes "\<bar>q\<bar> < pow2 1023"
  shows "is_number (round64 q)
         \<and> \<bar>valof (round64 q) - q\<bar> \<le> \<bar>q\<bar> * pow2 (- 53) + pow2 (- 1075)"
proof -
  consider "q = 0" | "0 < q" | "q < 0" by linarith
  then show ?thesis
  proof cases
    case 1
    then show ?thesis
      using pow2_pos [of "- 1075"]
      by (simp add: round64_def is_number_def is_nan_def is_inf_def)
  next
    case 2
    with assms round64_positive [of q] obtain v where
      "round64 q = Finite v" "\<bar>v - q\<bar> \<le> q * pow2 (- 53) + pow2 (- 1075)"
      by auto
    with 2 show ?thesis
      by (simp add: is_number_def is_nan_def is_inf_def)
  next
    case 3
    with assms round64_positive [of "- q"] obtain v where
      v: "round64 (- q) = Finite v" "\<bar>v - (- q)\<bar> \<le> (- q) * pow2 (- 53) + pow2 (- 1075)"
      by auto
    have "round64 q = f64_neg (Finite v)"
      using round64_negative [OF 3] v(1) by simp
    then have "is_number (round64 q)" "valof (round64 q) = - v"
      by (simp_all add: is_number_def is_nan_def is_inf_def)
    moreover have "\<bar>- v - q\<bar> = \<bar>v - (- q)\<bar>" by simp
    ultimately show ?thesis
      using v(2) 3 by simp
  qed
qed


lemma is_number_valof_zero: "is_number x \<Longrightarrow> is_zero x \<longleftrightarrow> valof x = 0"
  by (cases x) (simp_all add: is_number_def is_zero_def is_nan_def is_inf_def)

lemma f64_neg_number: "is_number x \<Longrightarrow> is_number (f64_neg x) \<and> valof (f64_neg x) = - valof x"
  by (cases x) (simp_all add: is_number_def is_nan_def is_inf_def)

lemma valof_signed_zero: "is_number (signed_zero b) \<and> valof (signed_zero b) = 0"
  by (simp add: signed_zero_def is_number_def is_nan_def is_inf_def)

lemma f64_mul_number:
  assumes "is_number x" and "is_number y" and "\<bar>valof x * valof y\<bar> < pow2 1023"
  shows "is_number (f64_mul x y)
         \<and> \<bar>valof (f64_mul x y) - valof x * valof y\<bar>
             \<le> \<bar>valof x * valof y\<bar> * pow2 (- 53) + pow2 (- 1075)"
proof (cases "is_zero x \<or> is_zero y")
  case True
  define p where "p = valof x * valof y"
  have p: "p = 0"
    using True assms(1,2) by (auto simp: p_def is_number_valof_zero)
  have "f64_mul x y = signed_zero (signbit x \<noteq> signbit y)"
    using True assms(1,2) by (simp add: f64_mul_def is_number_def Let_def)
  then have "is_number (f64_mul x y) \<and> valof (f64_mul x y) = 0"
    using valof_signed_zero by simp
  then have "is_number (f64_mul x y)
      \<and> \<bar>valof (f64_mul x y) - p\<bar> \<le> \<bar>p\<bar> * pow2 (- 53) + pow2 (- 1075)"
    using p pow2_pos [of "- 1075"] by simp
  then show ?thesis unfolding p_def .
next
  case False
  then have "f64_mul x y = round64 (valof x * valof y)"
    using assms(1,2) by (simp add: f64_mul_def is_number_def Let_def)
  with round64_error [OF assms(3)] show ?thesis by simp
qed

lemma f64_div_number:
  assumes "is_number x" and "is_number y" and "valof y \<noteq> 0"
    and "\<bar>valof x / valof y\<bar> < pow2 1023"
  shows "is_number (f64_div x y)
         \<and> \<bar>valof (f64_div x y) - valof x / valof y\<bar>
             \<le> \<bar>valof x / valof y\<bar> * pow2 (- 53) + pow2 (- 1075)"
proof (cases "is_zero x")
  case True
  define p where "p = valof x / valof y"
  have p: "p = 0"
    using True assms(1) by (simp add: p_def is_number_valof_zero)
  have "f64_div x y = signed_zero (signbit x \<noteq> signbit y)"
    using True assms(1,2,3) by (simp add: f64_div_def is_number_def Let_def is_number_valof_zero)
  then have "is_number (f64_div x y) \<and> valof (f64_div x y) = 0"
    using valof_signed_zero by simp
  then have "is_number (f64_div x y)
      \<and> \<bar>valof (f64_div x y) - p\<bar> \<le> \<bar>p\<bar> * pow2 (- 53) + pow2 (- 1075)"
    using p pow2_pos [of "- 1075"] by simp
  then show ?thesis unfolding p_def .
next
  case False
  then have "f64_div x y = round64 (valof x / valof y)"
    using assms(1,2,3) by (simp add: f64_div_def is_number_def Let_def is_number_valof_zero)
  with round64_error [OF assms(4)] show ?thesis by simp
qed

lemma f64_add_number:
  assumes "is_number x" and "is_number y" and "\<bar>valof x + valof y\<bar> < pow2 1023"
  shows "is_number (f64_add x y)
         \<and> \<bar>valof (f64_add x y) - (valof x + valof y)\<bar>
             \<le> \<bar>valof x + valof y\<bar> * pow2 (- 53) + pow2 (- 1075)"
proof (cases "valof x + valof y = 0")
  case True
  then have "f64_add x y = NegZero \<or> f64_add x y = Finite 0"
    using assms(1,2) by (simp add: f64_add_def is_number_def Let_def)
  with True show ?thesis
    using pow2_pos [of "- 1075"]
    by (auto simp: is_number_def is_nan_def is_inf_def)
next
  case False
  then have "f64_add x y = round64 (valof x + valof y)"
    using assms(1,2) by (simp add: f64_add_def is_number_def Let_def)
  with round64_error [OF assms(3)] show ?thesis by simp
qed

lemma f64_sub_number:
  assumes "is_number x" and "is_number y" and "\<bar>valof x - valof y\<bar> < pow2 1023"
  shows "is_number (f64_sub x y)
         \<and> \<bar>valof (f64_sub x y) - (valof x - valof y)\<bar>
             \<le> \<bar>valof x - valof y\<bar> * pow2 (- 53) + pow2 (- 1075)"
  using f64_add_number [of x "f64_neg y"] f64_neg_number [OF assms(2)] assms
  by (simp add: f64_sub_def)

lemma quotient_error:
  fixes s o' vs vo u :: rat
  assumes s: "0 \<le> s" and o: "0 < o'" and u: "0 < u" "u \<le> 1 / 4"
    and vs: "\<bar>vs - s\<bar> \<le> s * u" and vo: "\<bar>vo - o'\<bar> \<le> o' * u"
  shows "0 < vo \<and> \<bar>vs / vo - s / o'\<bar> \<le> 3 * (u * (s / o'))"
proof -
  have ou: "o' * u \<le> o' * (1 / 4)" using o u by (intro mult_left_mono) simp_all
  with vo have vo_lo: "3 / 4 * o' \<le> vo" by (simp add: abs_le_iff)
  with o have vo_pos: "0 < vo" by simp
  have "vs * o' - s * vo = (vs - s) * o' - s * (vo - o')" by (simp add: algebra_simps)
  then have "\<bar>vs * o' - s * vo\<bar> \<le> \<bar>vs - s\<bar> * o' + s * \<bar>vo - o'\<bar>"
    using s o by (simp add: abs_mult) (metis abs_mult abs_of_nonneg abs_triangle_ineq4 less_imp_le)
  also have "\<dots> \<le> s * u * o' + s * (o' * u)"
    using vs vo s o by (intro add_mono mult_right_mono mult_left_mono) simp_all
  finally have num: "\<bar>vs * o' - s * vo\<bar> \<le> 2 * (s * u * o')" by (simp add: algebra_simps)
  have "vs / vo - s / o' = (vs * o' - s * vo) / (vo * o')"
    using vo_pos o by (simp add: field_simps)
  then have "\<bar>vs / vo - s / o'\<bar> = \<bar>vs * o' - s * vo\<bar> / (vo * o')"
    using vo_pos o by (simp add: abs_mult)
  also have "\<dots> \<le> 2 * (s * u * o') / (vo * o')"
    using num vo_pos o by (intro divide_right_mono) simp_all
  also have "\<dots> = 2 * (s * u) / vo" using o by simp
  also have "\<dots> \<le> 2 * (s * u) / (3 / 4 * o')"
    using vo_lo o s u by (intro divide_left_mono) simp_all
  also have "\<dots> = 8 / 3 * (u * (s / o'))" by simp
  also have "\<dots> \<le> 3 * (u * (s / o'))"
    using s o u by (intro mult_right_mono) simp_all
  finally show ?thesis using vo_pos by simp
qed

lemma reduction_error:
  fixes \<rho> vd vt rp u \<eta> :: rat
  assumes u: "0 < u" "u \<le> 1 / 1000" and e: "0 \<le> \<eta>" "\<eta> \<le> u" and r: "0 \<le> \<rho>"
    and d: "\<bar>vd - \<rho>\<bar> \<le> 5 * (u * \<rho>) + \<eta>"
    and t: "\<bar>vt - (1 - vd)\<bar> \<le> \<bar>1 - vd\<bar> * u + \<eta>"
    and p: "\<bar>rp - vt * 100\<bar> \<le> \<bar>vt * 100\<bar> * u + \<eta>"
  shows "\<bar>rp - (1 - \<rho>) * 100\<bar> \<le> 1024 * u * (1 + \<bar>(1 - \<rho>) * 100\<bar>)"
proof -
  define a where "a = \<bar>1 - \<rho>\<bar>"
  define P where "P = u * \<rho>"
  define Q where "Q = u * a"
  have a0: "0 \<le> a" by (simp add: a_def)
  have P0: "0 \<le> P" using u r by (simp add: P_def)
  have Q0: "0 \<le> Q" using u a0 by (simp add: Q_def)
  have Pu: "P * u \<le> P / 1000" using P0 u mult_left_mono [of u "1 / 1000" P] by simp
  have Qu: "Q * u \<le> Q / 1000" using Q0 u mult_left_mono [of u "1 / 1000" Q] by simp
  have eu: "\<eta> * u \<le> \<eta> / 1000" using e u mult_left_mono [of u "1 / 1000" \<eta>] by simp
  have "\<rho> \<le> 1 + a" by (simp add: a_def)
  then have "u * \<rho> \<le> u * (1 + a)" using u by (intro mult_left_mono) simp_all
  then have PQ: "P \<le> u + Q" by (simp add: P_def Q_def algebra_simps)
  have d': "\<bar>vd - \<rho>\<bar> \<le> 5 * P + \<eta>" using d by (simp add: P_def)
  then have B: "\<bar>1 - vd\<bar> \<le> a + 5 * P + \<eta>" unfolding a_def by linarith
  have "\<bar>1 - vd\<bar> * u \<le> (a + 5 * P + \<eta>) * u"
    using B u by (intro mult_right_mono) simp_all
  also have "\<dots> = Q + 5 * (P * u) + \<eta> * u" by (simp add: Q_def algebra_simps)
  finally have "\<bar>1 - vd\<bar> * u \<le> Q + P / 200 + \<eta> / 1000" using Pu eu by linarith
  with t have t': "\<bar>vt - (1 - vd)\<bar> \<le> Q + P / 200 + \<eta> / 1000 + \<eta>" by linarith
  with d' have C: "\<bar>vt - (1 - \<rho>)\<bar> \<le> Q + P / 200 + \<eta> / 1000 + \<eta> + 5 * P + \<eta>"
    by linarith
  then have D: "\<bar>vt\<bar> \<le> a + (Q + P / 200 + \<eta> / 1000 + \<eta> + 5 * P + \<eta>)"
    unfolding a_def by linarith
  have "\<bar>vt * 100\<bar> * u = 100 * (\<bar>vt\<bar> * u)" by (simp add: abs_mult)
  also have "\<bar>vt\<bar> * u \<le> (a + (Q + P / 200 + \<eta> / 1000 + \<eta> + 5 * P + \<eta>)) * u"
    using D u by (intro mult_right_mono) simp_all
  also have "\<dots> = Q + Q * u + 1001 / 200 * (P * u) + 2001 / 1000 * (\<eta> * u)"
    by (simp add: Q_def algebra_simps)
  finally have "\<bar>vt * 100\<bar> * u
      \<le> 100 * (Q + Q * u + 1001 / 200 * (P * u) + 2001 / 1000 * (\<eta> * u))"
    by simp
  moreover define x1 x2 x3 y
    where "x1 = P * u" and "x2 = Q * u" and "x3 = \<eta> * u" and "y = \<bar>vt * 100\<bar> * u"
  ultimately have "y \<le> 100 * (Q + x2 + 1001 / 200 * x1 + 2001 / 1000 * x3)"
    "x1 \<le> P / 1000" "x2 \<le> Q / 1000" "x3 \<le> \<eta> / 1000"
    using Pu Qu eu by simp_all
  then have "y \<le> 101 * Q + P + \<eta>" using P0 Q0 e(1) by (simp add: algebra_simps)
  then have p': "\<bar>vt * 100\<bar> * u \<le> 101 * Q + P + \<eta>" by (simp add: y_def)
  define A1 A2 A3 where "A1 = \<bar>rp - (1 - \<rho>) * 100\<bar>"
    and "A2 = \<bar>rp - vt * 100\<bar>" and "A3 = \<bar>vt - (1 - \<rho>)\<bar>"
  have "vt * 100 - (1 - \<rho>) * 100 = (vt - (1 - \<rho>)) * 100"
    by (simp add: algebra_simps)
  then have "\<bar>vt * 100 - (1 - \<rho>) * 100\<bar> = \<bar>vt - (1 - \<rho>)\<bar> * \<bar>100\<bar>"
    by (simp only: abs_mult)
  then have "\<bar>vt * 100 - (1 - \<rho>) * 100\<bar> = 100 * A3"
    by (simp add: A3_def)
  moreover have "\<bar>rp - z\<bar> \<le> \<bar>rp - w\<bar> + \<bar>w - z\<bar>" for w z :: rat
    by linarith
  ultimately have tri: "A1 \<le> A2 + 100 * A3"
    unfolding A1_def A2_def by metis
  from p p' have A2: "A2 \<le> 101 * Q + P + \<eta> + \<eta>"
    unfolding A2_def by linarith
  from C have A3: "A3 \<le> Q + P / 200 + \<eta> / 1000 + \<eta> + 5 * P + \<eta>"
    unfolding A3_def .
  from tri A2 A3 P0 e(1) have "A1 \<le> 201 * Q + 502 * P + 203 * \<eta>"
    by (simp add: algebra_simps)
  then have "\<bar>rp - (1 - \<rho>) * 100\<bar> \<le> 201 * Q + 502 * P + 203 * \<eta>"
    by (simp only: A1_def)
  with PQ e have "\<bar>rp - (1 - \<rho>) * 100\<bar> \<le> 703 * Q + 705 * u" by linarith
  also have "\<dots> \<le> 1024 * u + 102400 * Q" using Q0 u by linarith
  also have "\<dots> = 1024 * u * (1 + a * 100)"
    by (simp add: Q_def algebra_simps)
  also have "a * 100 = \<bar>(1 - \<rho>) * 100\<bar>"
    by (simp only: a_def abs_mult abs_numeral)
  finally show ?thesis .
qed


lemma f64_of_int64_number:
  assumes "0 \<le> sint n"
  shows "is_number (f64_of_int64 n) \<and> 0 \<le> valof (f64_of_int64 n)
         \<and> (0 < sint n \<longrightarrow> 0 < valof (f64_of_int64 n))
         \<and> \<bar>valof (f64_of_int64 n) - of_int (sint n)\<bar> \<le> of_int (sint n) * pow2 (- 53)"
proof (cases "sint n = 0")
  case True
  then show ?thesis
    by (simp add: f64_of_int64_def round64_def is_number_def is_nan_def is_inf_def)
next
  case False
  with assms have "0 < sint n" by simp
  from f64_of_int64_positive [OF this] \<open>0 < sint n\<close> show ?thesis
    by (auto simp: is_number_def is_nan_def is_inf_def)
qed

lemma small_enough: "\<bar>x\<bar> \<le> 2 ^ 80 \<Longrightarrow> \<bar>x\<bar> < pow2 1023"
proof -
  assume "\<bar>x\<bar> \<le> 2 ^ 80"
  moreover have "(2 ^ 80 :: rat) < pow2 1023" by (simp add: pow2_def)
  ultimately show ?thesis by linarith
qed

lemma reduction_tolerance:
  fixes original compressed :: int64
  assumes o: "0 < sint original" and s: "0 \<le> sint compressed"
  defines "rp \<equiv> f64_mul
      (f64_sub (Finite 1) (f64_div (f64_of_int64 compressed) (f64_of_int64 original)))
      (Finite 100)"
  defines "exact \<equiv> (1 - of_int (sint compressed) / of_int (sint original)) * (100 :: rat)"
  shows "is_number rp \<and> \<bar>valof rp - exact\<bar> \<le> pow2 (- 43) * (1 + \<bar>exact\<bar>)"
proof -
  define u where "u = pow2 (- 53)"
  define \<eta> where "\<eta> = pow2 (- 1075)"
  define qo :: rat where "qo = of_int (sint original)"
  define qs :: rat where "qs = of_int (sint compressed)"
  define \<rho> where "\<rho> = qs / qo"
  have u: "0 < u" "u \<le> 1 / 1000" "u \<le> 1 / 4"
    by (simp_all add: u_def pow2_def)
  have e: "0 \<le> \<eta>" "\<eta> \<le> u"
    using pow2_pos [of "- 1075"] pow2_mono [of "- 1075" "- 53"] by (simp_all add: \<eta>_def u_def)
  have "1 \<le> sint original" using o by simp
  then have qo: "1 \<le> qo" unfolding qo_def by (simp only: of_int_1_le_iff)
  have "0 \<le> sint compressed" "sint compressed \<le> 2 ^ 63"
    using s sint_lt [of compressed] by simp_all
  then have qs: "0 \<le> qs" "qs \<le> 2 ^ 63"
    unfolding qs_def by (simp_all only: of_int_0_le_iff) (simp add: of_int_le_iff [symmetric, where ?'a = rat] del: of_int_le_iff)
  have r0: "0 \<le> \<rho>" using qs qo by (simp add: \<rho>_def)
  have "1 * qs \<le> qo * qs" using qo qs(1) by (intro mult_right_mono)
  then have "\<rho> \<le> qs" using qo by (simp add: \<rho>_def field_simps)
  with qs have r1: "\<rho> \<le> 2 ^ 63" by simp
  define xo where "xo = f64_of_int64 original"
  define xs where "xs = f64_of_int64 compressed"
  have xo: "is_number xo" "0 < valof xo" "\<bar>valof xo - qo\<bar> \<le> qo * u"
    using f64_of_int64_number [of original] o by (simp_all add: xo_def qo_def u_def)
  have xs: "is_number xs" "0 \<le> valof xs" "\<bar>valof xs - qs\<bar> \<le> qs * u"
    using f64_of_int64_number [OF s] by (simp_all add: xs_def qs_def u_def)
  from quotient_error [OF qs(1) _ u(1) u(3) xs(3) xo(3)] qo
  have q: "\<bar>valof xs / valof xo - \<rho>\<bar> \<le> 3 * (u * \<rho>)"
    by (simp add: \<rho>_def)
  define r where "r = valof xs / valof xo"
  have rpos: "0 \<le> r" using xs(2) xo(2) by (simp add: r_def)
  have ur: "u * \<rho> \<le> \<rho> / 1000"
    using r0 u(2) mult_right_mono [of u "1 / 1000" \<rho>] by simp
  from q have q': "\<bar>r - \<rho>\<bar> \<le> 3 * (u * \<rho>)" by (simp add: r_def)
  with ur r0 have rb: "r \<le> 2 * \<rho>" by linarith
  with r1 rpos have "\<bar>r\<bar> \<le> 2 ^ 80" by simp
  then have "\<bar>valof xs / valof xo\<bar> < pow2 1023"
    unfolding r_def by (rule small_enough)
  from f64_div_number [OF xs(1) xo(1) _ this] xo(2)
  have d: "is_number (f64_div xs xo)"
    "\<bar>valof (f64_div xs xo) - r\<bar> \<le> \<bar>r\<bar> * u + \<eta>"
    by (simp_all add: r_def u_def \<eta>_def)
  define vd where "vd = valof (f64_div xs xo)"
  have "r * u \<le> (\<rho> + 3 * (u * \<rho>)) * u"
    using q' u(1) by (intro mult_right_mono) linarith+
  also have "\<dots> = u * \<rho> + 3 * (u * (u * \<rho>))" by (simp add: algebra_simps)
  also have "u * (u * \<rho>) \<le> 1 / 1000 * (u * \<rho>)"
    using u r0 by (intro mult_right_mono) simp_all
  finally have "r * u \<le> 2 * (u * \<rho>)" using u r0 by simp
  with d(2) q' rpos have vd: "\<bar>vd - \<rho>\<bar> \<le> 5 * (u * \<rho>) + \<eta>"
    unfolding vd_def by simp
  have e1: "\<eta> \<le> 1" using e u by linarith
  from vd ur r0 r1 e1 have "\<bar>1 - vd\<bar> \<le> 2 ^ 65" by simp
  then have b1: "\<bar>valof (Finite 1) - valof (f64_div xs xo)\<bar> \<le> 2 ^ 80"
    by (simp add: vd_def)
  have one: "is_number (Finite 1)"
    by (simp add: is_number_def is_nan_def is_inf_def)
  from f64_sub_number [OF one d(1) small_enough [OF b1]]
  have t: "is_number (f64_sub (Finite 1) (f64_div xs xo))"
    "\<bar>valof (f64_sub (Finite 1) (f64_div xs xo)) - (1 - vd)\<bar> \<le> \<bar>1 - vd\<bar> * u + \<eta>"
    by (simp_all add: vd_def u_def \<eta>_def)
  define vt where "vt = valof (f64_sub (Finite 1) (f64_div xs xo))"
  have "\<bar>1 - vd\<bar> * u \<le> 2 ^ 65 * u"
    using \<open>\<bar>1 - vd\<bar> \<le> 2 ^ 65\<close> u(1) by (intro mult_right_mono) simp_all
  also have "\<dots> \<le> 2 ^ 65" using u by simp
  finally have "\<bar>vt - (1 - vd)\<bar> \<le> 2 ^ 65 + 1"
    using t(2) e1 by (simp add: vt_def)
  with \<open>\<bar>1 - vd\<bar> \<le> 2 ^ 65\<close> have "\<bar>vt\<bar> \<le> 2 ^ 67" by simp
  then have "\<bar>vt * 100\<bar> \<le> 2 ^ 80" by (simp add: abs_mult)
  then have b2: "\<bar>valof (f64_sub (Finite 1) (f64_div xs xo)) * valof (Finite 100)\<bar> \<le> 2 ^ 80"
    by (simp add: vt_def)
  have hundred: "is_number (Finite 100)"
    by (simp add: is_number_def is_nan_def is_inf_def)
  from f64_mul_number [OF t(1) hundred small_enough [OF b2]]
  have p: "is_number rp" "\<bar>valof rp - vt * 100\<bar> \<le> \<bar>vt * 100\<bar> * u + \<eta>"
    by (simp_all add: rp_def xs_def xo_def vt_def u_def \<eta>_def)
  from t(2) have t': "\<bar>vt - (1 - vd)\<bar> \<le> \<bar>1 - vd\<bar> * u + \<eta>"
    by (simp add: vt_def)
  from reduction_error [OF u(1,2) e r0 vd t' p(2)]
  have "\<bar>valof rp - (1 - \<rho>) * 100\<bar> \<le> 1024 * u * (1 + \<bar>(1 - \<rho>) * 100\<bar>)" .
  moreover have "1024 * u = pow2 (- 43)" by (simp add: u_def pow2_def)
  moreover have "(1 - \<rho>) * 100 = exact" by (simp add: exact_def \<rho>_def qs_def qo_def)
  ultimately show ?thesis using p(1) by simp
qed


lemma ratio_tolerance:
  fixes original compressed :: int64
  assumes o: "0 < sint original" and s: "0 < sint compressed"
  defines "ratio \<equiv> f64_div (f64_of_int64 original) (f64_of_int64 compressed)"
  defines "exact \<equiv> (of_int (sint original) / of_int (sint compressed) :: rat)"
  shows "is_number ratio \<and> \<bar>valof ratio - exact\<bar> \<le> pow2 (- 50) * exact"
proof -
  define u where "u = pow2 (- 53)"
  define \<eta> where "\<eta> = pow2 (- 1075)"
  define qo :: rat where "qo = of_int (sint original)"
  define qs :: rat where "qs = of_int (sint compressed)"
  define \<rho> where "\<rho> = qo / qs"
  have u: "0 < u" "u \<le> 1 / 1000" "u \<le> 1 / 4"
    by (simp_all add: u_def pow2_def)
  have "pow2 (- 1075) \<le> pow2 (- 116)" by (rule pow2_mono) simp
  also have "\<dots> = u * (1 / 2 ^ 63)" by (simp add: u_def pow2_def)
  finally have e: "\<eta> \<le> u * (1 / 2 ^ 63)" by (simp add: \<eta>_def)
  have "1 \<le> sint original" "sint original \<le> 2 ^ 63"
    using o sint_lt [of original] by simp_all
  then have qo: "1 \<le> qo" "qo \<le> 2 ^ 63"
    unfolding qo_def by (simp_all add: of_int_le_iff [symmetric, where ?'a = rat] del: of_int_le_iff)
  have "1 \<le> sint compressed" "sint compressed \<le> 2 ^ 63"
    using s sint_lt [of compressed] by simp_all
  then have qs: "1 \<le> qs" "qs \<le> 2 ^ 63"
    unfolding qs_def by (simp_all add: of_int_le_iff [symmetric, where ?'a = rat] del: of_int_le_iff)
  have "1 * qo \<le> qs * qo" using qo qs by (intro mult_right_mono) simp_all
  then have "\<rho> \<le> qo" using qs by (simp add: \<rho>_def field_simps)
  with qo have r1: "\<rho> \<le> 2 ^ 63" by simp
  have "1 / 2 ^ 63 \<le> 1 / qs" using qs by (intro divide_left_mono) simp_all
  also have "\<dots> \<le> qo / qs" using qo qs by (intro divide_right_mono) simp_all
  finally have r2: "1 / 2 ^ 63 \<le> \<rho>" by (simp add: \<rho>_def)
  then have r0: "0 \<le> \<rho>" by simp
  have "u * (1 / 2 ^ 63) \<le> u * \<rho>" using r2 u(1) by (intro mult_left_mono) simp_all
  with e have e': "\<eta> \<le> u * \<rho>" by simp
  define xo where "xo = f64_of_int64 original"
  define xs where "xs = f64_of_int64 compressed"
  have xo: "is_number xo" "0 \<le> valof xo" "\<bar>valof xo - qo\<bar> \<le> qo * u"
    using f64_of_int64_number [of original] o by (simp_all add: xo_def qo_def u_def)
  have xs: "is_number xs" "0 < valof xs" "\<bar>valof xs - qs\<bar> \<le> qs * u"
    using f64_of_int64_number [of compressed] s by (simp_all add: xs_def qs_def u_def)
  have qo0: "0 \<le> qo" and qs0: "0 < qs" using qo qs by simp_all
  from quotient_error [OF qo0 qs0 u(1) u(3) xo(3) xs(3)]
  have q: "\<bar>valof xo / valof xs - \<rho>\<bar> \<le> 3 * (u * \<rho>)"
    by (simp add: \<rho>_def)
  define r where "r = valof xo / valof xs"
  have rpos: "0 \<le> r" using xo(2) xs(2) by (simp add: r_def)
  have ur: "u * \<rho> \<le> \<rho> / 1000"
    using r0 u(2) mult_right_mono [of u "1 / 1000" \<rho>] by simp
  from q have q': "\<bar>r - \<rho>\<bar> \<le> 3 * (u * \<rho>)" by (simp add: r_def)
  with ur r0 have rb: "r \<le> 2 * \<rho>" by linarith
  with r1 rpos have "\<bar>r\<bar> \<le> 2 ^ 80" by simp
  then have "\<bar>valof xo / valof xs\<bar> < pow2 1023"
    unfolding r_def by (rule small_enough)
  from f64_div_number [OF xo(1) xs(1) _ this] xs(2)
  have d: "is_number (f64_div xo xs)"
    "\<bar>valof (f64_div xo xs) - r\<bar> \<le> \<bar>r\<bar> * u + \<eta>"
    by (simp_all add: r_def u_def \<eta>_def)
  have "r * u \<le> (\<rho> + 3 * (u * \<rho>)) * u"
    using q' u(1) by (intro mult_right_mono) linarith+
  also have "\<dots> = u * \<rho> + 3 * (u * (u * \<rho>))" by (simp add: algebra_simps)
  also have "u * (u * \<rho>) \<le> 1 / 1000 * (u * \<rho>)"
    using u r0 by (intro mult_right_mono) simp_all
  finally have "r * u \<le> 2 * (u * \<rho>)" using u r0 by simp
  with d(2) q' rpos e' have "\<bar>valof (f64_div xo xs) - \<rho>\<bar> \<le> 6 * (u * \<rho>)"
    by simp
  also have "\<dots> \<le> 8 * u * \<rho>" using u(1) r0 by simp
  also have "8 * u = pow2 (- 50)" by (simp add: u_def pow2_def)
  finally show ?thesis
    using d(1) by (simp add: ratio_def exact_def \<rho>_def xo_def xs_def qo_def qs_def)
qed

section \<open>The document synthesizer\<close>

lemma fill_binary_eq:
  "i \<le> length bs \<Longrightarrow>
   fill_binary i bs = take i bs @ map (\<lambda>k. of_nat (k mod 256)) [i..<length bs]"
proof (induction i bs rule: fill_binary.induct)
  case (1 i bs)
  show ?case
  proof (cases "i < length bs")
    case True
    have "fill_binary i bs = fill_binary (i + 1) (bs[i := of_nat (i mod 256)])"
      using True by (subst fill_binary.simps) simp
    also have "\<dots> = take (i + 1) (bs[i := of_nat (i mod 256)])
        @ map (\<lambda>k. of_nat (k mod 256)) [i + 1..<length bs]"
      using "1.IH" [OF True] True by simp
    also have "take (i + 1) (bs[i := of_nat (i mod 256)]) = take i bs @ [of_nat (i mod 256)]"
      using True by (simp add: take_Suc_conv_app_nth)
    finally show ?thesis
      using True by (simp add: upt_conv_Cons)
  next
    case False
    with "1.prems" have "i = length bs" by simp
    then show ?thesis by (subst fill_binary.simps) simp
  qed
qed

lemma fill_items_eq:
  "i \<le> length items \<Longrightarrow> length items = 5000 \<Longrightarrow>
   fill_items i items = take i items @ map item [i..<5000]"
proof (induction i items rule: fill_items.induct)
  case (1 i items)
  show ?case
  proof (cases "i < 5000")
    case True
    have "fill_items i items = fill_items (i + 1) (items[i := item i])"
      using True by (subst fill_items.simps) simp
    also have "\<dots> = take (i + 1) (items[i := item i]) @ map item [i + 1..<5000]"
      using "1.IH" [OF True] True "1.prems" by simp
    also have "take (i + 1) (items[i := item i]) = take i items @ [item i]"
      using True "1.prems" by (simp add: take_Suc_conv_app_nth)
    finally show ?thesis
      using True by (simp add: upt_conv_Cons)
  next
    case False
    with "1.prems" have "i = length items" by simp
    then show ?thesis using "1.prems" by (subst fill_items.simps) simp
  qed
qed

lemma binary_block:
  "fill_binary 0 (replicate n 0) = map (\<lambda>k. of_nat (k mod 256)) [0..<n]"
  using fill_binary_eq [of 0 "replicate n 0"] by simp

lemma item_block: "fill_items 0 (replicate 5000 []) = map item [0..<5000]"
  using fill_items_eq [of 0 "replicate 5000 []"] by simp

lemma length_Repeat: "length (Repeat s n) = n * length s"
  by (induction n) (simp_all add: Repeat_def)

text \<open>
  C10: whatever identifier and time the synthesizer is given, the \<open>binary_data\<close> field
  of its document is one and the same block of exactly 300000 bytes, and the byte at
  every index \<open>i\<close> is \<open>i mod 256\<close>.
\<close>

theorem binary_data_pattern:
  "map_of (generateLargeDocument oid now) ''binary_data''
     = Some (VBytes (fill_binary 0 (replicate 300000 0)))
   \<and> length (fill_binary 0 (replicate 300000 0)) = 300000
   \<and> (\<forall>i<300000. fill_binary 0 (replicate 300000 0) ! i = of_nat (i mod 256)
         \<and> unat (fill_binary 0 (replicate 300000 0) ! i) = i mod 256)"
proof -
  have "\<forall>i<300000. unat (of_nat (i mod 256) :: byte) = i mod 256"
    by (simp add: unat_of_nat)
  then show ?thesis
    by (simp add: generateLargeDocument_def binary_block)
qed

theorem binary_data_pattern_witness:
  "(299999::nat) < 300000 \<and> unat (fill_binary 0 (replicate 300000 0) ! 299999) = 223"
  using binary_data_pattern [of sample_oid 0] by simp

section \<open>The orchestrator\<close>

lemma run_tests_fail:
  "k < length ts \<Longrightarrow> \<forall>j<k. succeeds w doc (ts ! j) \<Longrightarrow>
   returned_error (fst (driver w doc (ts ! k))) = Some err \<Longrightarrow>
   run_tests w doc ts res =
     (Returned ([], Some (fst (ts ! k) @ '' test failed: '' @ err)),
      concat (map (\<lambda>t. run_events w doc t @ [Sleep 100]) (take k ts))
        @ run_events w doc (ts ! k))"
proof (induction ts arbitrary: k res)
  case Nil
  then show ?case by simp
next
  case (Cons t ts)
  obtain name compressor where t: "t = (name, compressor)" by (cases t)
  obtain out evs where d: "testCompression w name compressor doc = (out, evs)"
    by (cases "testCompression w name compressor doc")
  show ?case
  proof (cases k)
    case 0
    with Cons.prems(3) t d obtain r where "out = Returned (r, Some err)"
      by (cases out rule: returned_error.cases) (auto simp: driver_def)
    with 0 t d show ?thesis by (simp add: run_events_def driver_def)
  next
    case (Suc k')
    from Cons.prems(2) Suc have "succeeds w doc t" by auto
    with t d obtain r where out: "out = Returned (r, None)"
      by (cases out rule: returned_result.cases) (auto simp: driver_def succeeds_def)
    have k': "k' < length ts" using Cons.prems(1) Suc by simp
    have ok: "\<forall>j<k'. succeeds w doc (ts ! j)" using Cons.prems(2) Suc by auto
    have err: "returned_error (fst (driver w doc (ts ! k'))) = Some err"
      using Cons.prems(3) Suc by simp
    show ?thesis
      using Cons.IH [OF k' ok err, of "res @ [r]"] t d out Suc
      by (simp add: run_events_def driver_def)
  qed
qed

lemma run_tests_ok:
  "\<forall>t\<in>set ts. succeeds w doc t \<Longrightarrow>
   \<exists>rs. run_tests w doc ts res =
          (Returned (res @ rs, None),
           concat (map (\<lambda>t. run_events w doc t @ [Sleep 100]) ts))
      \<and> map Some rs = map (\<lambda>t. returned_result (fst (driver w doc t))) ts"
proof (induction ts arbitrary: res)
  case Nil
  then show ?case by simp
next
  case (Cons t ts)
  obtain name compressor where t: "t = (name, compressor)" by (cases t)
  obtain out evs where d: "testCompression w name compressor doc = (out, evs)"
    by (cases "testCompression w name compressor doc")
  from Cons.prems have "succeeds w doc t" by simp
  with t d obtain r where out: "out = Returned (r, None)"
    by (cases out rule: returned_result.cases) (auto simp: driver_def succeeds_def)
  from Cons.prems have "\<forall>t\<in>set ts. succeeds w doc t" by simp
  from Cons.IH [OF this, of "res @ [r]"] obtain rs where
    rs: "run_tests w doc ts (res @ [r]) =
          (Returned ((res @ [r]) @ rs, None),
           concat (map (\<lambda>t. run_events w doc t @ [Sleep 100]) ts))"
        "map Some rs = map (\<lambda>t. returned_result (fst (driver w doc t))) ts"
    by blast
  show ?case
    using rs t d out
    by (intro exI [of _ "r # rs"]) (simp add: run_events_def driver_def)
qed

lemma testCompression_Algorithm:
  "testCompression w algorithm compressor doc = (Returned (r, e), evs) \<Longrightarrow>
   Algorithm r = algorithm"
  by (auto simp: testCompression_def Let_def
      split: prod.splits option.splits sum.splits go_value.splits)

lemma returned_result_Algorithm:
  "returned_result (fst (driver w doc t)) = Some r \<Longrightarrow> Algorithm r = fst t"
proof -
  assume a: "returned_result (fst (driver w doc t)) = Some r"
  obtain out evs where d: "testCompression w (fst t) (snd t) doc = (out, evs)"
    by (cases "testCompression w (fst t) (snd t) doc")
  with a have "out = Returned (r, None)"
    by (cases out rule: returned_result.cases) (auto simp: driver_def)
  with d show ?thesis by (auto dest: testCompression_Algorithm)
qed

lemma run_events_Connect:
  "Connect cs \<in> set (run_events w doc t) \<Longrightarrow> cs = [snd t]"
  by (auto simp: run_events_def driver_def testCompression_def Let_def
      split: prod.splits option.splits sum.splits go_value.splits)

lemma main_fatal:
  assumes "runAllCompressionTests w (generateLargeDocument oid now)
             = (Returned (rs, Some e), evs)"
  shows "reported (main w oid now) = None \<and> (\<exists>msg. status (main w oid now) = Fatal msg)"
  using assms by (simp add: main_def Let_def split: option.splits prod.splits)

text \<open>
  C4: when the run of every row of the table succeeds, the orchestrator returns three
  results, in the order of the table, Snappy, Zlib, Zstd; the result at each position
  is the one the driver returned for that row.
\<close>

theorem orchestrator_order:
  assumes "\<forall>t\<in>set tests. succeeds w doc t"
  shows "\<exists>results evs. runAllCompressionTests w doc = (Returned (results, None), evs)
           \<and> length results = 3
           \<and> map Algorithm results = [''Snappy'', ''Zlib'', ''Zstd'']
           \<and> map Some results = map (\<lambda>t. returned_result (fst (driver w doc t))) tests"
proof -
  from run_tests_ok [OF assms, of "[]"] obtain rs where
    run: "runAllCompressionTests w doc =
            (Returned (rs, None), concat (map (\<lambda>t. run_events w doc t @ [Sleep 100]) tests))"
    and rs: "map Some rs = map (\<lambda>t. returned_result (fst (driver w doc t))) tests"
    by (auto simp: runAllCompressionTests_def)
  from rs have len: "length rs = length tests"
    by (metis length_map)
  have "\<forall>i<length tests. Algorithm (rs ! i) = fst (tests ! i)"
  proof (intro allI impI)
    fix i assume i: "i < length tests"
    with rs len have "returned_result (fst (driver w doc (tests ! i))) = Some (rs ! i)"
      by (metis nth_map)
    then show "Algorithm (rs ! i) = fst (tests ! i)"
      by (rule returned_result_Algorithm)
  qed
  with len have "map Algorithm rs = map fst tests"
    by (simp add: list_eq_iff_nth_eq)
  with run rs len show ?thesis
    by (simp add: tests_def)
qed

theorem orchestrator_order_witness:
  "succeeds (quiet_world 1000 (VInt64 500)) sample_doc (''Snappy'', ''snappy'')
   \<and> succeeds (quiet_world 1000 (VInt64 500)) sample_doc (''Zlib'', ''zlib'')
   \<and> succeeds (quiet_world 1000 (VInt64 500)) sample_doc (''Zstd'', ''zstd'')
   \<and> (\<exists>results evs.
         runAllCompressionTests (quiet_world 1000 (VInt64 500)) sample_doc
           = (Returned (results, None), evs)
         \<and> length results = 3
         \<and> map Algorithm results = [''Snappy'', ''Zlib'', ''Zstd'']
         \<and> map Some results
             = map (\<lambda>t. returned_result
                     (fst (driver (quiet_world 1000 (VInt64 500)) sample_doc t))) tests)"
proof -
  have h: "\<forall>t\<in>set tests. succeeds (quiet_world 1000 (VInt64 500)) sample_doc t"
    by (simp add: tests_def succeeds_def driver_eval)
  from orchestrator_order [OF h] h show ?thesis
    by (simp add: tests_def)
qed

lemma Connect_in_runs:
  "Connect cs \<in> set (concat (map (\<lambda>t. f t @ [Sleep n]) ts)) \<Longrightarrow>
   \<exists>t\<in>set ts. Connect cs \<in> set (f t)"
  by (induction ts) auto

text \<open>
  C2: when the runs before position \<open>k\<close> succeed and the run at \<open>k\<close> returns an error,
  the orchestrator returns no results and an error that names algorithm \<open>k\<close>; what
  happened in the world is the runs up to \<open>k\<close> and nothing of a later algorithm; and
  the program ends in \<open>log.Fatalf\<close> without calling the reporter.
\<close>

theorem fail_fast:
  assumes "k < length tests"
    and "\<forall>j<k. succeeds w doc (tests ! j)"
    and "returned_error (fst (driver w doc (tests ! k))) = Some err"
  shows "runAllCompressionTests w doc =
           (Returned ([], Some (fst (tests ! k) @ '' test failed: '' @ err)),
            concat (map (\<lambda>t. run_events w doc t @ [Sleep 100]) (take k tests))
              @ run_events w doc (tests ! k))
         \<and> (\<forall>j. k < j \<and> j < length tests \<longrightarrow>
               Connect [snd (tests ! j)] \<notin> set (snd (runAllCompressionTests w doc)))
         \<and> (doc = generateLargeDocument oid now \<longrightarrow>
               reported (main w oid now) = None
               \<and> (\<exists>msg. status (main w oid now) = Fatal msg))"
proof -
  have run: "runAllCompressionTests w doc =
           (Returned ([], Some (fst (tests ! k) @ '' test failed: '' @ err)),
            concat (map (\<lambda>t. run_events w doc t @ [Sleep 100]) (take k tests))
              @ run_events w doc (tests ! k))"
    unfolding runAllCompressionTests_def by (rule run_tests_fail [OF assms])
  have later: "Connect [snd (tests ! j)] \<notin> set (snd (runAllCompressionTests w doc))"
    if j: "k < j" "j < length tests" for j
  proof
    assume "Connect [snd (tests ! j)] \<in> set (snd (runAllCompressionTests w doc))"
    with run have "Connect [snd (tests ! j)]
        \<in> set (concat (map (\<lambda>t. run_events w doc t @ [Sleep 100]) (take k tests))
              @ run_events w doc (tests ! k))"
      by simp
    then have "Connect [snd (tests ! j)]
          \<in> set (concat (map (\<lambda>t. run_events w doc t @ [Sleep 100]) (take k tests)))
        \<or> Connect [snd (tests ! j)] \<in> set (run_events w doc (tests ! k))"
      by (simp only: set_append Un_iff)
    then have "\<exists>t\<in>set (take k tests) \<union> {tests ! k}.
        Connect [snd (tests ! j)] \<in> set (run_events w doc t)"
      using Connect_in_runs [of "[snd (tests ! j)]" "run_events w doc" 100 "take k tests"]
      by blast
    then have "\<exists>t\<in>set (take (Suc k) tests).
        Connect [snd (tests ! j)] \<in> set (run_events w doc t)"
      using assms(1) by (simp add: take_Suc_conv_app_nth)
    then obtain t where t: "t \<in> set (take (Suc k) tests)"
      and c: "Connect [snd (tests ! j)] \<in> set (run_events w doc t)"
      by blast
    from t obtain i where "i < Suc k" "i < length tests" "t = tests ! i"
      by (auto simp: in_set_conv_nth)
    with c have i: "i \<le> k" "snd (tests ! j) = snd (tests ! i)"
      by (auto dest: run_events_Connect)
    have "distinct (map snd tests)" by (simp add: tests_def)
    with i j assms(1) show False
      by (auto simp: distinct_conv_nth)
  qed
  from run later main_fatal show ?thesis by blast
qed


theorem fail_fast_witness:
  "(1::nat) < length tests
   \<and> succeeds zlib_rejects sample_doc (tests ! 0)
   \<and> returned_error (fst (driver zlib_rejects sample_doc (tests ! 1))) = Some ''write rejected''
   \<and> runAllCompressionTests zlib_rejects sample_doc =
        (Returned ([], Some ''Zlib test failed: write rejected''),
         [Connect [''snappy''], DropCollection ''test_snappy'',
          InsertOne ''test_snappy'' sample_doc, CollStats ''test_snappy'',
          Disconnect [''snappy''], Sleep 100,
          Connect [''zlib''], DropCollection ''test_zlib'',
          InsertOne ''test_zlib'' sample_doc, Disconnect [''zlib'']])
   \<and> reported (main zlib_rejects sample_oid 0) = None"
proof -
  have h1: "(1::nat) < length tests"
    by (simp add: tests_def)
  have h2: "\<forall>j<1. succeeds zlib_rejects sample_doc (tests ! j)"
    by (simp add: tests_def succeeds_def driver_eval)
  have h3: "returned_error (fst (driver zlib_rejects sample_doc (tests ! 1)))
              = Some ''write rejected''"
    by (simp add: tests_def driver_eval)
  from fail_fast [OF h1 h2 h3, of sample_oid 0] h1 h2 h3 show ?thesis
    by (simp add: sample_doc_def tests_def run_events_def driver_eval)
qed

section \<open>The driver\<close>

lemma unexpected_shape_panics:
  assumes "Marshal w doc = Inr m"
    and "connect_err (reply w [compressor]) = None"
    and "insert_err (reply w [compressor]) = None"
    and "stats_decode (reply w [compressor]) = Inr statsResult"
    and "\<forall>n. map_of statsResult ''storageSize'' \<noteq> Some (VInt64 n)"
  shows "fst (testCompression w algorithm compressor doc) = Panicked InterfaceConversion"
  using assms
  by (simp add: testCompression_def getDocumentSize_def Let_def
      split: option.splits go_value.splits)

text \<open>
  C5: where \<open>collStats\<close> reports the storage size as an \<open>int32\<close>, the driver does not
  return an error: the type assertion panics, and the panic ends the program.
\<close>

theorem int32_storage_size_panics:
  "testCompression (quiet_world 1000 (VInt32 4096)) ''Snappy'' ''snappy'' sample_doc
     = (Panicked InterfaceConversion,
        [Connect [''snappy''], DropCollection ''test_snappy'',
         InsertOne ''test_snappy'' sample_doc, CollStats ''test_snappy'',
         Disconnect [''snappy'']])
   \<and> status (main (quiet_world 1000 (VInt32 4096)) sample_oid 0)
       = Crashed InterfaceConversion"
  by (simp add: main_def runAllCompressionTests_def tests_def sample_doc_def driver_eval)

text \<open>
  C1: the result of a run that succeeded has its reduction percentage equal to
  \<open>(1 - compressed / original) * 100\<close> and its ratio equal to
  \<open>original / compressed\<close>, computed in \<open>float64\<close> from its own two sizes. For
  sizes that are positive (a compressed size of zero included, for the reduction) the
  two floats are numbers within a relative \<open>2 ^ - 43\<close> of one plus the true
  percentage, and within a relative \<open>2 ^ - 50\<close> of the true ratio. For the sizes 1000
  and 500 they are exactly 2 and 50.
\<close>

theorem derived_metrics:
  assumes "testCompression w algorithm compressor doc = (Returned (r, None), evs)"
  shows "ReductionPercent r =
           f64_mul
             (f64_sub (Finite 1)
                (f64_div (f64_of_int64 (CompressedSize r)) (f64_of_int64 (OriginalSize r))))
             (Finite 100)
         \<and> CompressionRatio r =
             f64_div (f64_of_int64 (OriginalSize r)) (f64_of_int64 (CompressedSize r))
         \<and> (0 < sint (OriginalSize r) \<and> 0 \<le> sint (CompressedSize r) \<longrightarrow>
               is_number (ReductionPercent r)
               \<and> \<bar>valof (ReductionPercent r)
                    - (1 - of_int (sint (CompressedSize r)) / of_int (sint (OriginalSize r)))
                      * 100\<bar>
                  \<le> pow2 (- 43)
                      * (1 + \<bar>(1 - of_int (sint (CompressedSize r))
                                    / of_int (sint (OriginalSize r))) * 100\<bar>))
         \<and> (0 < sint (OriginalSize r) \<and> 0 < sint (CompressedSize r) \<longrightarrow>
               is_number (CompressionRatio r)
               \<and> \<bar>valof (CompressionRatio r)
                    - of_int (sint (OriginalSize r)) / of_int (sint (CompressedSize r))\<bar>
                  \<le> pow2 (- 50)
                      * (of_int (sint (OriginalSize r)) / of_int (sint (CompressedSize r))))
         \<and> (OriginalSize r = 1000 \<and> CompressedSize r = 500 \<longrightarrow>
               CompressionRatio r = Finite 2 \<and> ReductionPercent r = Finite 50)"
proof -
  have formulas: "ReductionPercent r =
           f64_mul
             (f64_sub (Finite 1)
                (f64_div (f64_of_int64 (CompressedSize r)) (f64_of_int64 (OriginalSize r))))
             (Finite 100)"
         "CompressionRatio r =
             f64_div (f64_of_int64 (OriginalSize r)) (f64_of_int64 (CompressedSize r))"
    using assms
    by (auto simp: testCompression_def Let_def
        split: prod.splits option.splits sum.splits go_value.splits)
  have "f64_div (f64_of_int64 1000) (f64_of_int64 500) = Finite 2"
    by (simp add: f64_eval round64_eval)
  moreover have "f64_mul (f64_sub (Finite 1) (f64_div (f64_of_int64 500) (f64_of_int64 1000)))
      (Finite 100) = Finite 50"
    by (simp add: f64_eval round64_eval)
  ultimately have example: "OriginalSize r = 1000 \<and> CompressedSize r = 500 \<longrightarrow>
      CompressionRatio r = Finite 2 \<and> ReductionPercent r = Finite 50"
    using formulas by simp
  from formulas reduction_tolerance [of "OriginalSize r" "CompressedSize r"]
    ratio_tolerance [of "OriginalSize r" "CompressedSize r"] example
  show ?thesis by simp
qed

theorem derived_metrics_witness:
  "testCompression (quiet_world 1000 (VInt64 500)) ''Zstd'' ''zstd'' sample_doc
     = (Returned
          (\<lparr>Algorithm = ''Zstd'', OriginalSize = 1000, CompressedSize = 500,
            ReductionPercent = Finite 50, CompressionRatio = Finite 2,
            InsertTime = 250000000\<rparr>, None),
        [Connect [''zstd''], DropCollection ''test_zstd'',
         InsertOne ''test_zstd'' sample_doc, CollStats ''test_zstd'',
         Disconnect [''zstd'']])
   \<and> CompressionRatio
         \<lparr>Algorithm = ''Zstd'', OriginalSize = 1000, CompressedSize = 500,
          ReductionPercent = Finite 50, CompressionRatio = Finite 2,
          InsertTime = 250000000\<rparr> = Finite 2"
proof -
  have h: "testCompression (quiet_world 1000 (VInt64 500)) ''Zstd'' ''zstd'' sample_doc
     = (Returned
          (\<lparr>Algorithm = ''Zstd'', OriginalSize = 1000, CompressedSize = 500,
            ReductionPercent = Finite 50, CompressionRatio = Finite 2,
            InsertTime = 250000000\<rparr>, None),
        [Connect [''zstd''], DropCollection ''test_zstd'',
         InsertOne ''test_zstd'' sample_doc, CollStats ''test_zstd'',
         Disconnect [''zstd'']])"
    by (simp add: driver_eval)
  from derived_metrics [OF h] h show ?thesis by simp
qed

section \<open>The reporter's selection\<close>

lemma select_loop_foldl:
  "select_loop rs (b, f) =
     (foldl (\<lambda>b r. if f64_gt (ReductionPercent r) (ReductionPercent b) then r else b) b rs,
      foldl (\<lambda>f r. if sint (InsertTime r) < sint (InsertTime f) then r else f) f rs)"
  by (induction rs arbitrary: b f) simp_all

lemma foldl_pick:
  fixes key :: "'a \<Rightarrow> 'k::linorder"
  assumes "\<forall>x\<in>set (b # xs). \<forall>y\<in>set (b # xs). better x y \<longleftrightarrow> key y < key x"
  shows "(foldl (\<lambda>b r. if better r b then r else b) b xs = b \<and> (\<forall>x\<in>set xs. key x \<le> key b))
       \<or> (\<exists>i<length xs. foldl (\<lambda>b r. if better r b then r else b) b xs = xs ! i
             \<and> key b < key (xs ! i)
             \<and> (\<forall>k<i. key (xs ! k) < key (xs ! i))
             \<and> (\<forall>k<length xs. key (xs ! k) \<le> key (xs ! i)))"
  using assms
proof (induction xs arbitrary: b)
  case Nil
  then show ?case by simp
next
  case (Cons x xs)
  let ?f = "\<lambda>b r. if better r b then r else b"
  let ?c = "\<lambda>b. foldl ?f b xs"
  show ?case
  proof (cases "better x b")
    case True
    then have kx: "key b < key x" using Cons.prems by simp
    have "\<forall>u\<in>set (x # xs). \<forall>v\<in>set (x # xs). better u v \<longleftrightarrow> key v < key u"
      using Cons.prems by simp
    from Cons.IH [OF this] consider
        (stay) "?c x = x" "\<forall>u\<in>set xs. key u \<le> key x"
      | (move) i where "i < length xs" "?c x = xs ! i" "key x < key (xs ! i)"
          "\<forall>k<i. key (xs ! k) < key (xs ! i)" "\<forall>k<length xs. key (xs ! k) \<le> key (xs ! i)"
      by blast
    then show ?thesis
    proof cases
      case stay
      have "0 < length (x # xs) \<and> foldl ?f b (x # xs) = (x # xs) ! 0
          \<and> key b < key ((x # xs) ! 0)
          \<and> (\<forall>k<0. key ((x # xs) ! k) < key ((x # xs) ! 0))
          \<and> (\<forall>k<length (x # xs). key ((x # xs) ! k) \<le> key ((x # xs) ! 0))"
        using True kx stay by (auto simp: nth_Cons split: nat.splits)
      then show ?thesis by blast
    next
      case move
      have "Suc i < length (x # xs) \<and> foldl ?f b (x # xs) = (x # xs) ! Suc i
          \<and> key b < key ((x # xs) ! Suc i)
          \<and> (\<forall>k<Suc i. key ((x # xs) ! k) < key ((x # xs) ! Suc i))
          \<and> (\<forall>k<length (x # xs). key ((x # xs) ! k) \<le> key ((x # xs) ! Suc i))"
        using True kx move by (auto simp: nth_Cons less_Suc_eq_0_disj split: nat.splits)
      then show ?thesis by blast
    qed
  next
    case False
    then have kx: "key x \<le> key b" using Cons.prems by (simp add: not_less)
    have "\<forall>u\<in>set (b # xs). \<forall>v\<in>set (b # xs). better u v \<longleftrightarrow> key v < key u"
      using Cons.prems by simp
    from Cons.IH [OF this] consider
        (stay) "?c b = b" "\<forall>u\<in>set xs. key u \<le> key b"
      | (move) i where "i < length xs" "?c b = xs ! i" "key b < key (xs ! i)"
          "\<forall>k<i. key (xs ! k) < key (xs ! i)" "\<forall>k<length xs. key (xs ! k) \<le> key (xs ! i)"
      by blast
    then show ?thesis
    proof cases
      case stay
      with False kx show ?thesis by simp
    next
      case move
      have "Suc i < length (x # xs) \<and> foldl ?f b (x # xs) = (x # xs) ! Suc i
          \<and> key b < key ((x # xs) ! Suc i)
          \<and> (\<forall>k<Suc i. key ((x # xs) ! k) < key ((x # xs) ! Suc i))
          \<and> (\<forall>k<length (x # xs). key ((x # xs) ! k) \<le> key ((x # xs) ! Suc i))"
        using False kx move by (auto simp: nth_Cons less_Suc_eq_0_disj split: nat.splits)
      then show ?thesis by blast
    qed
  qed
qed

lemma foldl_pick_first:
  fixes key :: "'a \<Rightarrow> 'k::linorder"
  assumes "xs \<noteq> []"
    and "\<forall>x\<in>set xs. \<forall>y\<in>set xs. better x y \<longleftrightarrow> key y < key x"
  shows "\<exists>i<length xs. foldl (\<lambda>b r. if better r b then r else b) (hd xs) xs = xs ! i
             \<and> (\<forall>k<i. key (xs ! k) < key (xs ! i))
             \<and> (\<forall>k<length xs. key (xs ! k) \<le> key (xs ! i))"
proof -
  from assms(1) have hd: "hd xs \<in> set xs" "hd xs = xs ! 0" "0 < length xs"
    by (simp_all add: hd_conv_nth)
  with assms(2) have
    "\<forall>x\<in>set (hd xs # xs). \<forall>y\<in>set (hd xs # xs). better x y \<longleftrightarrow> key y < key x"
    by simp
  from foldl_pick [OF this] consider
      (stay) "foldl (\<lambda>b r. if better r b then r else b) (hd xs) xs = hd xs"
        "\<forall>x\<in>set xs. key x \<le> key (hd xs)"
    | (move) i where "i < length xs"
        "foldl (\<lambda>b r. if better r b then r else b) (hd xs) xs = xs ! i"
        "\<forall>k<i. key (xs ! k) < key (xs ! i)" "\<forall>k<length xs. key (xs ! k) \<le> key (xs ! i)"
    by blast
  then show ?thesis
  proof cases
    case stay
    have "0 < length xs \<and> foldl (\<lambda>b r. if better r b then r else b) (hd xs) xs = xs ! 0
        \<and> (\<forall>k<0. key (xs ! k) < key (xs ! 0))
        \<and> (\<forall>k<length xs. key (xs ! k) \<le> key (xs ! 0))"
      using stay hd by simp
    then show ?thesis by blast
  next
    case move
    then show ?thesis by blast
  qed
qed


lemma f64_gt_fkey:
  "x \<noteq> NaN \<Longrightarrow> y \<noteq> NaN \<Longrightarrow> f64_gt x y \<longleftrightarrow> fkey y < fkey x"
  by (auto simp: f64_gt_def f64_lt_def is_nan_def fkey_def less_prod_def)

lemma f64_lt_fkey:
  "x \<noteq> NaN \<Longrightarrow> y \<noteq> NaN \<Longrightarrow> f64_lt x y \<longleftrightarrow> fkey x < fkey y"
  by (auto simp: f64_lt_def is_nan_def fkey_def less_prod_def)

lemma f64_le_fkey:
  "x \<noteq> NaN \<Longrightarrow> y \<noteq> NaN \<Longrightarrow> f64_le x y \<longleftrightarrow> fkey x \<le> fkey y"
  by (auto simp: f64_le_def is_nan_def fkey_def less_eq_prod_def)

text \<open>
  C3: for a result sequence that is not empty and whose reduction percentages are
  numbers, the reporter's best compression is the result at the first position that
  holds the maximum reduction percentage, and its fastest insert the result at the
  first position that holds the minimum insertion time: every earlier result is
  strictly worse, so of two tied results the earlier one is selected.
\<close>

theorem selection_first_extremal:
  assumes "results \<noteq> []"
    and "\<forall>r\<in>set results. ReductionPercent r \<noteq> NaN"
  shows "\<exists>a i j. displayPerformanceAnalysis results = Returned a
           \<and> i < length results \<and> best_compression a = results ! i
           \<and> (\<forall>k<length results.
                 f64_le (ReductionPercent (results ! k)) (ReductionPercent (results ! i)))
           \<and> (\<forall>k<i. f64_lt (ReductionPercent (results ! k)) (ReductionPercent (results ! i)))
           \<and> j < length results \<and> fastest_insert a = results ! j
           \<and> (\<forall>k<length results.
                 sint (InsertTime (results ! j)) \<le> sint (InsertTime (results ! k)))
           \<and> (\<forall>k<j. sint (InsertTime (results ! j)) < sint (InsertTime (results ! k)))"
proof -
  let ?best = "foldl (\<lambda>b r. if f64_gt (ReductionPercent r) (ReductionPercent b) then r else b)
                 (hd results) results"
  let ?fast = "foldl (\<lambda>f r. if sint (InsertTime r) < sint (InsertTime f) then r else f)
                 (hd results) results"
  from assms(1) obtain first rest where res: "results = first # rest"
    by (cases results) auto
  then obtain a where a: "displayPerformanceAnalysis results = Returned a"
    "best_compression a = ?best" "fastest_insert a = ?fast"
    by (simp add: displayPerformanceAnalysis_def select_loop_foldl Let_def)
  have "\<forall>x\<in>set results. \<forall>y\<in>set results.
      f64_gt (ReductionPercent x) (ReductionPercent y)
        \<longleftrightarrow> fkey (ReductionPercent y) < fkey (ReductionPercent x)"
    using assms(2) by (simp add: f64_gt_fkey)
  from foldl_pick_first [of results
      "\<lambda>x y. f64_gt (ReductionPercent x) (ReductionPercent y)"
      "\<lambda>r. fkey (ReductionPercent r)", OF assms(1) this]
  obtain i where i: "i < length results" "?best = results ! i"
    "\<forall>k<i. fkey (ReductionPercent (results ! k)) < fkey (ReductionPercent (results ! i))"
    "\<forall>k<length results.
       fkey (ReductionPercent (results ! k)) \<le> fkey (ReductionPercent (results ! i))"
    by blast
  have nan: "\<forall>k<length results. ReductionPercent (results ! k) \<noteq> NaN"
    using assms(2) by simp
  have bi: "\<forall>k<length results.
      f64_le (ReductionPercent (results ! k)) (ReductionPercent (results ! i))"
    using i(1,4) nan by (simp add: f64_le_fkey)
  have bl: "\<forall>k<i. f64_lt (ReductionPercent (results ! k)) (ReductionPercent (results ! i))"
    using i(1,3) nan by (simp add: f64_lt_fkey)
  have "\<forall>x\<in>set results. \<forall>y\<in>set results.
      sint (InsertTime x) < sint (InsertTime y)
        \<longleftrightarrow> - sint (InsertTime y) < - sint (InsertTime x)"
    by simp
  from foldl_pick_first [of results
      "\<lambda>x y. sint (InsertTime x) < sint (InsertTime y)"
      "\<lambda>r. - sint (InsertTime r)", OF assms(1) this]
  obtain j where j: "j < length results" "?fast = results ! j"
    "\<forall>k<j. sint (InsertTime (results ! j)) < sint (InsertTime (results ! k))"
    "\<forall>k<length results. sint (InsertTime (results ! j)) \<le> sint (InsertTime (results ! k))"
    by auto
  from a i(1,2) bi bl j show ?thesis
    by (intro exI [of _ a] exI [of _ i] exI [of _ j]) simp
qed

theorem selection_first_extremal_witness:
  "tie_results \<noteq> []
   \<and> ReductionPercent (tie_results ! 0) \<noteq> NaN
   \<and> ReductionPercent (tie_results ! 1) \<noteq> NaN
   \<and> ReductionPercent (tie_results ! 2) \<noteq> NaN
   \<and> (\<exists>a. displayPerformanceAnalysis tie_results = Returned a
         \<and> best_compression a = tie_results ! 1
         \<and> fastest_insert a = tie_results ! 1
         \<and> Algorithm (best_compression a) = ''Zlib'')"
proof -
  have h1: "tie_results \<noteq> []"
    by (simp add: tie_results_def)
  have h2: "\<forall>r\<in>set tie_results. ReductionPercent r \<noteq> NaN"
    by (simp add: tie_results_def)
  from selection_first_extremal [OF h1 h2] obtain a i j where
    a: "displayPerformanceAnalysis tie_results = Returned a"
    and i: "i < length tie_results" "best_compression a = tie_results ! i"
    and j: "j < length tie_results" "fastest_insert a = tie_results ! j"
    by blast
  have "select_loop tie_results (tie_results ! 0, tie_results ! 0)
      = (tie_results ! 1, tie_results ! 1)"
    by (simp add: tie_results_def f64_gt_def f64_lt_def is_nan_def)
  with a have "best_compression a = tie_results ! 1" "fastest_insert a = tie_results ! 1"
    by (auto simp: displayPerformanceAnalysis_def tie_results_def Let_def)
  with a h1 show ?thesis
    by (simp add: tie_results_def)
qed

section \<open>A storage size of zero\<close>

text \<open>
  C6: when \<open>collStats\<close> reports a storage size of 0 and every call succeeds, the
  driver returns a result and no error; its ratio is the original size divided by
  zero and its reduction is computed from zero divided by the original size, as the
  formulas are written. For an original size above zero that is a ratio of \<open>+Inf\<close>
  and a reduction of 100; for an original size of zero both are NaN.
\<close>

theorem zero_storage_unguarded:
  assumes "Marshal w doc = Inr m"
    and "connect_err (reply w [compressor]) = None"
    and "insert_err (reply w [compressor]) = None"
    and "stats_decode (reply w [compressor]) = Inr statsResult"
    and "map_of statsResult ''storageSize'' = Some (VInt64 0)"
  shows "\<exists>r evs. testCompression w algorithm compressor doc = (Returned (r, None), evs)
           \<and> OriginalSize r = of_nat (length m) \<and> CompressedSize r = 0
           \<and> CompressionRatio r = f64_div (f64_of_int64 (OriginalSize r)) (Finite 0)
           \<and> ReductionPercent r =
               f64_mul
                 (f64_sub (Finite 1) (f64_div (Finite 0) (f64_of_int64 (OriginalSize r))))
                 (Finite 100)
           \<and> (0 < sint (OriginalSize r) \<longrightarrow>
                 CompressionRatio r = PosInf \<and> ReductionPercent r = Finite 100)
           \<and> (OriginalSize r = 0 \<longrightarrow>
                 CompressionRatio r = NaN \<and> ReductionPercent r = NaN)"
proof -
  have zero: "f64_of_int64 0 = Finite 0"
    by (simp add: f64_of_int64_def round64_def)
  define r where "r =
    \<lparr>Algorithm = algorithm, OriginalSize = of_nat (length m), CompressedSize = 0,
     ReductionPercent =
       f64_mul (f64_sub (Finite 1) (f64_div (Finite 0) (f64_of_int64 (of_nat (length m)))))
         (Finite 100),
     CompressionRatio = f64_div (f64_of_int64 (of_nat (length m))) (Finite 0),
     InsertTime = insert_elapsed (reply w [compressor])\<rparr>"
  have run: "fst (testCompression w algorithm compressor doc) = Returned (r, None)"
    using assms by (simp add: testCompression_def getDocumentSize_def Let_def zero r_def)
  have pos: "CompressionRatio r = PosInf \<and> ReductionPercent r = Finite 100"
    if "0 < sint (OriginalSize r)"
  proof -
    from that f64_of_int64_positive [of "OriginalSize r"] obtain v where
      v: "f64_of_int64 (of_nat (length m)) = Finite v" "0 < v"
      by (auto simp: r_def)
    have "f64_mul (f64_sub (Finite 1) (Finite 0)) (Finite 100) = Finite 100"
      by (simp add: f64_eval round64_eval)
    with v show ?thesis
      by (simp add: r_def f64_div_def is_nan_def is_inf_def is_zero_def
          signed_zero_def signed_inf_def)
  qed
  have nul: "CompressionRatio r = NaN \<and> ReductionPercent r = NaN" if "OriginalSize r = 0"
    using that zero by (simp add: r_def f64_eval)
  from run pos nul show ?thesis
    by (cases "testCompression w algorithm compressor doc") (auto simp: r_def)
qed

theorem zero_storage_unguarded_witness:
  "Marshal (quiet_world 1000 (VInt64 0)) sample_doc = Inr (replicate 1000 0)
   \<and> connect_err (reply (quiet_world 1000 (VInt64 0)) [''zlib'']) = None
   \<and> insert_err (reply (quiet_world 1000 (VInt64 0)) [''zlib'']) = None
   \<and> (\<exists>r evs. testCompression (quiet_world 1000 (VInt64 0)) ''Zlib'' ''zlib'' sample_doc
                  = (Returned (r, None), evs)
         \<and> OriginalSize r = 1000 \<and> CompressedSize r = 0
         \<and> CompressionRatio r = PosInf \<and> ReductionPercent r = Finite 100)"
proof -
  let ?w = "quiet_world 1000 (VInt64 0)"
  have h1: "Marshal ?w sample_doc = Inr (replicate 1000 0)"
    and h2: "connect_err (reply ?w [''zlib'']) = None"
    and h3: "insert_err (reply ?w [''zlib'']) = None"
    and h4: "stats_decode (reply ?w [''zlib''])
              = Inr [(''ns'', VString ''compression_demo.test''), (''storageSize'', VInt64 0)]"
    and h5: "map_of [(''ns'', VString ''compression_demo.test''), (''storageSize'', VInt64 0)]
               ''storageSize'' = Some (VInt64 0)"
    by (simp_all add: quiet_world_def quiet_reply_def)
  from zero_storage_unguarded [OF h1 h2 h3 h4 h5, of "''Zlib''"] h1 h2 h3
  show ?thesis by auto
qed


section \<open>The projections\<close>

lemma traffic_of_spec:
  "traffic_of originalSizeMB result =
     \<lparr>traffic_algorithm = Algorithm result,
      traffic_total = spec_bandwidth (Finite 1000) (megabytes (CompressedSize result)),
      traffic_saved =
        f64_sub (spec_bandwidth (Finite 1000) originalSizeMB)
          (spec_bandwidth (Finite 1000) (megabytes (CompressedSize result))),
      traffic_percent =
        f64_mul
          (f64_div
             (f64_sub (spec_bandwidth (Finite 1000) originalSizeMB)
                (spec_bandwidth (Finite 1000) (megabytes (CompressedSize result))))
             (spec_bandwidth (Finite 1000) originalSizeMB))
          (Finite 100)\<rparr>"
  by (simp add: traffic_of_def spec_bandwidth_def megabytes_def Let_def)

lemma million: "f64_of_int64 monthlyTransfers = Finite 1000000"
  by (simp add: monthlyTransfers_def f64_eval round64_eval)

lemma cost_of_spec:
  "cost_of originalCost result =
     \<lparr>cost_algorithm = Algorithm result,
      cost_month = spec_cost (Finite 1000000) (megabytes (CompressedSize result)),
      cost_saved =
        f64_sub originalCost (spec_cost (Finite 1000000) (megabytes (CompressedSize result))),
      cost_percent =
        f64_mul
          (f64_div
             (f64_sub originalCost
                (spec_cost (Finite 1000000) (megabytes (CompressedSize result))))
             originalCost)
          (Finite 100)\<rparr>"
  by (simp add: cost_of_def spec_cost_def megabytes_def costPerGB_def million Let_def)

lemma displayCostAnalysis_spec:
  "no_compression (displayCostAnalysis results originalSizeMB)
     = spec_cost (Finite 1000000) originalSizeMB
   \<and> cost_rows (displayCostAnalysis results originalSizeMB)
     = map (cost_of (spec_cost (Finite 1000000) originalSizeMB)) results"
  by (simp add: displayCostAnalysis_def spec_cost_def costPerGB_def million Let_def)

lemma analysis_rows:
  assumes "displayPerformanceAnalysis results = Returned a"
  shows "map traffic_total (traffic a)
           = map (\<lambda>r. spec_bandwidth (Finite 1000) (megabytes (CompressedSize r))) results
         \<and> map traffic_saved (traffic a)
           = map (\<lambda>r. f64_sub
                        (spec_bandwidth (Finite 1000) (megabytes (OriginalSize (hd results))))
                        (spec_bandwidth (Finite 1000) (megabytes (CompressedSize r)))) results
         \<and> map cost_month (cost_rows (costs a))
           = map (\<lambda>r. spec_cost (Finite 1000000) (megabytes (CompressedSize r))) results
         \<and> no_compression (costs a)
           = spec_cost (Finite 1000000) (megabytes (OriginalSize (hd results)))
         \<and> map cost_saved (cost_rows (costs a))
           = map (\<lambda>r. f64_sub (no_compression (costs a))
                        (spec_cost (Finite 1000000) (megabytes (CompressedSize r)))) results"
proof -
  from assms obtain first rest where res: "results = first # rest"
    by (cases results) (auto simp: displayPerformanceAnalysis_def)
  obtain b f where sel: "select_loop results (first, first) = (b, f)"
    by (cases "select_loop results (first, first)")
  from assms res sel have a: "a =
      \<lparr>best_compression = b, fastest_insert = f,
       traffic = map (traffic_of (megabytes (OriginalSize first))) results,
       costs = displayCostAnalysis results (megabytes (OriginalSize first))\<rparr>"
    by (simp add: displayPerformanceAnalysis_def megabytes_def Let_def)
  show ?thesis
    unfolding a using displayCostAnalysis_spec [of results "megabytes (OriginalSize first)"]
    by (simp add: res traffic_of_spec cost_of_spec comp_def)
qed

text \<open>
  C7, as the code has it: the traffic simulation projects every algorithm over 1000
  transfers, and contrasts it with the original over the same 1000; the cost analysis
  projects every algorithm, and the original, over 1000000 transfers. Each projection
  keeps its own count for all algorithms; the two counts differ.
\<close>

theorem transfer_counts:
  assumes "displayPerformanceAnalysis results = Returned a"
  shows "map traffic_total (traffic a)
           = map (\<lambda>r. spec_bandwidth (Finite 1000) (megabytes (CompressedSize r))) results
         \<and> map traffic_saved (traffic a)
           = map (\<lambda>r. f64_sub
                        (spec_bandwidth (Finite 1000) (megabytes (OriginalSize (hd results))))
                        (spec_bandwidth (Finite 1000) (megabytes (CompressedSize r)))) results
         \<and> map cost_month (cost_rows (costs a))
           = map (\<lambda>r. spec_cost (Finite 1000000) (megabytes (CompressedSize r))) results
         \<and> no_compression (costs a)
           = spec_cost (Finite 1000000) (megabytes (OriginalSize (hd results)))
         \<and> map cost_saved (cost_rows (costs a))
           = map (\<lambda>r. f64_sub (no_compression (costs a))
                        (spec_cost (Finite 1000000) (megabytes (CompressedSize r)))) results"
  using assms by (rule analysis_rows)

theorem transfer_counts_witness:
  "(\<exists>a. displayPerformanceAnalysis [megabyte_result] = Returned a
        \<and> map traffic_total (traffic a) = [Finite 1000]
        \<and> map traffic_saved (traffic a) = [Finite 1000]
        \<and> no_compression (costs a) = spec_cost (Finite 1000000) (Finite 2))
   \<and> spec_bandwidth (Finite 1000) (megabytes (CompressedSize megabyte_result)) = Finite 1000"
proof -
  obtain a where a: "displayPerformanceAnalysis [megabyte_result] = Returned a"
    by (simp add: displayPerformanceAnalysis_def Let_def split: prod.splits)
  have mb: "megabytes (CompressedSize megabyte_result) = Finite 1"
    "megabytes (OriginalSize megabyte_result) = Finite 2"
    by (simp_all add: megabyte_result_def megabytes_def f64_eval round64_eval)
  have bw: "spec_bandwidth (Finite 1000) (Finite 1) = Finite 1000"
    "spec_bandwidth (Finite 1000) (Finite 2) = Finite 2000"
    "f64_sub (Finite 2000) (Finite 1000) = Finite 1000"
    by (simp_all add: spec_bandwidth_def f64_eval round64_eval)
  from transfer_counts [OF a] a mb bw show ?thesis
    by simp
qed

text \<open>
  C7 as claimed fails: for a result of one megabyte there is no transfer count that
  gives both the bandwidth and the monthly cost the reporter computes.
\<close>

theorem transfer_counts_counterexample:
  "\<not> (\<exists>transfers a. displayPerformanceAnalysis [megabyte_result] = Returned a
         \<and> map traffic_total (traffic a)
             = [spec_bandwidth transfers (megabytes (CompressedSize megabyte_result))]
         \<and> map cost_month (cost_rows (costs a))
             = [spec_cost transfers (megabytes (CompressedSize megabyte_result))])"
proof (intro notI, elim exE conjE)
  fix transfers a
  assume a: "displayPerformanceAnalysis [megabyte_result] = Returned a"
    and t: "map traffic_total (traffic a)
             = [spec_bandwidth transfers (megabytes (CompressedSize megabyte_result))]"
    and c: "map cost_month (cost_rows (costs a))
             = [spec_cost transfers (megabytes (CompressedSize megabyte_result))]"
  have mb: "megabytes (CompressedSize megabyte_result) = Finite 1"
    by (simp add: megabyte_result_def megabytes_def f64_eval round64_eval)
  have bw: "spec_bandwidth (Finite 1000) (Finite 1) = Finite 1000"
    by (simp add: spec_bandwidth_def f64_eval round64_eval)
  from analysis_rows [OF a] t mb bw
  have total: "f64_mul (Finite 1) transfers = Finite 1000"
    by (simp add: spec_bandwidth_def)
  from analysis_rows [OF a] c mb
  have "spec_cost (Finite 1000000) (Finite 1) = spec_cost transfers (Finite 1)"
    by simp
  then have "spec_cost (Finite 1000000) (Finite 1)
      = f64_mul (f64_div (Finite 1000) (Finite 1024)) (f64_const (9 / 100))"
    by (simp add: spec_cost_def total)
  then show False
    by (simp add: spec_cost_def f64_eval round64_eval)
qed


lemma cost_226:
  "displayCostAnalysis [result_226] (f64_const (47 / 10)) =
     \<lparr>no_compression = Finite (52875 / 128),
      cost_rows =
        [\<lparr>cost_algorithm = ''Zlib'',
          cost_month = Finite (6665011875 / 33554432),
          cost_saved = Finite (7195852125 / 33554432),
          cost_percent = Finite (3653185525263251 / 70368744177664)\<rparr>]\<rparr>"
proof -
  have o: "spec_cost (Finite 1000000) (f64_const (47 / 10)) = Finite (52875 / 128)"
    by (simp add: spec_cost_def f64_eval round64_eval)
  have mb: "megabytes (CompressedSize result_226) = Finite (1184891 / 524288)"
    by (simp add: megabytes_def result_226_def f64_eval round64_eval)
  have c: "spec_cost (Finite 1000000) (Finite (1184891 / 524288))
      = Finite (6665011875 / 33554432)"
    by (simp add: spec_cost_def f64_eval round64_eval)
  have s: "f64_sub (Finite (52875 / 128)) (Finite (6665011875 / 33554432))
      = Finite (7195852125 / 33554432)"
    by (simp add: f64_eval round64_eval)
  have d: "f64_div (Finite (7195852125 / 33554432)) (Finite (52875 / 128))
      = Finite (4676077472336961 / 9007199254740992)"
    by (simp add: f64_eval round64_eval)
  have p: "f64_mul (Finite (4676077472336961 / 9007199254740992)) (Finite 100)
      = Finite (3653185525263251 / 70368744177664)"
    by (simp add: f64_eval round64_eval)
  have row: "cost_of (Finite (52875 / 128)) result_226 =
      \<lparr>cost_algorithm = ''Zlib'',
        cost_month = Finite (6665011875 / 33554432),
        cost_saved = Finite (7195852125 / 33554432),
        cost_percent = Finite (3653185525263251 / 70368744177664)\<rparr>"
    by (simp add: cost_of_spec mb c s d p) (simp add: result_226_def)
  from displayCostAnalysis_spec [of "[result_226]" "f64_const (47 / 10)"] show ?thesis
    by (cases "displayCostAnalysis [result_226] (f64_const (47 / 10))") (simp add: o row)
qed

lemma displayCostAnalysis_single:
  assumes "spec_cost (Finite 1000000) originalSizeMB = oc"
    and "spec_cost (Finite 1000000) (megabytes (CompressedSize r)) = c"
    and "f64_sub oc c = s"
    and "f64_mul (f64_div s oc) (Finite 100) = p"
  shows "displayCostAnalysis [r] originalSizeMB =
     \<lparr>no_compression = oc,
      cost_rows = [\<lparr>cost_algorithm = Algorithm r, cost_month = c,
                    cost_saved = s, cost_percent = p\<rparr>]\<rparr>"
proof -
  have "cost_of oc r =
      \<lparr>cost_algorithm = Algorithm r, cost_month = c, cost_saved = s, cost_percent = p\<rparr>"
    by (simp add: cost_of_spec assms)
  with displayCostAnalysis_spec [of "[r]" originalSizeMB] show ?thesis
    by (cases "displayCostAnalysis [r] originalSizeMB") (simp add: assms(1))
qed

lemma analysis_costs:
  assumes "displayPerformanceAnalysis results = Returned a"
  shows "costs a = displayCostAnalysis results (megabytes (OriginalSize (hd results)))"
proof -
  from assms obtain first rest where res: "results = first # rest"
    by (cases results) (auto simp: displayPerformanceAnalysis_def)
  obtain b f where sel: "select_loop results (first, first) = (b, f)"
    by (cases "select_loop results (first, first)")
  from assms res sel show ?thesis
    by (auto simp: displayPerformanceAnalysis_def megabytes_def Let_def)
qed

lemma sizes_226:
  "megabytes (CompressedSize result_226) = Finite (1184891 / 524288)"
  "megabytes (CompressedSize result_printed_226) = Finite (1184735 / 524288)"
  "megabytes (OriginalSize result_226) = Finite (4928307 / 1048576)"
  "megabytes (OriginalSize result_printed_226) = Finite (4928307 / 1048576)"
  by (simp_all add: megabytes_def result_226_def result_printed_226_def f64_eval round64_eval)

lemma costs_226:
  "spec_cost (Finite 1000000) (f64_const (47 / 10)) = Finite (52875 / 128)"
  "spec_cost (Finite 1000000) (Finite (4928307 / 1048576)) = Finite (27721726875 / 67108864)"
  "spec_cost (Finite 1000000) (Finite (1184891 / 524288)) = Finite (6665011875 / 33554432)"
  "spec_cost (Finite 1000000) (Finite (1184735 / 524288)) = Finite (6664134375 / 33554432)"
  by (simp_all add: spec_cost_def f64_eval round64_eval)

lemma cost_printed_226:
  "displayCostAnalysis [result_printed_226] (f64_const (47 / 10)) =
     \<lparr>no_compression = Finite (52875 / 128),
      cost_rows =
        [\<lparr>cost_algorithm = Algorithm result_printed_226,
          cost_month = Finite (6664134375 / 33554432),
          cost_saved = Finite (7196729625 / 33554432),
          cost_percent = Finite (1826815506946179 / 35184372088832)\<rparr>]\<rparr>"
proof (rule displayCostAnalysis_single)
  show "f64_sub (Finite (52875 / 128)) (Finite (6664134375 / 33554432))
      = Finite (7196729625 / 33554432)"
    by (simp add: f64_eval round64_eval)
  have "f64_div (Finite (7196729625 / 33554432)) (Finite (52875 / 128))
      = Finite (2338323848891109 / 4503599627370496)"
    by (simp add: f64_eval round64_eval)
  moreover have "f64_mul (Finite (2338323848891109 / 4503599627370496)) (Finite 100)
      = Finite (1826815506946179 / 35184372088832)"
    by (simp add: f64_eval round64_eval)
  ultimately show "f64_mul (f64_div (Finite (7196729625 / 33554432)) (Finite (52875 / 128)))
      (Finite 100) = Finite (1826815506946179 / 35184372088832)"
    by simp
qed (simp_all add: sizes_226 costs_226)

lemma program_printed_226:
  "displayCostAnalysis [result_printed_226] (megabytes (OriginalSize result_printed_226)) =
     \<lparr>no_compression = Finite (27721726875 / 67108864),
      cost_rows =
        [\<lparr>cost_algorithm = Algorithm result_printed_226,
          cost_month = Finite (6664134375 / 33554432),
          cost_saved = Finite (14393458125 / 67108864),
          cost_percent = Finite (7307261753187909 / 140737488355328)\<rparr>]\<rparr>"
proof (rule displayCostAnalysis_single)
  show "f64_sub (Finite (27721726875 / 67108864)) (Finite (6664134375 / 33554432))
      = Finite (14393458125 / 67108864)"
    by (simp add: f64_eval round64_eval)
  have "f64_div (Finite (14393458125 / 67108864)) (Finite (27721726875 / 67108864))
      = Finite (2338323761020131 / 4503599627370496)"
    by (simp add: f64_eval round64_eval)
  moreover have "f64_mul (Finite (2338323761020131 / 4503599627370496)) (Finite 100)
      = Finite (7307261753187909 / 140737488355328)"
    by (simp add: f64_eval round64_eval)
  ultimately show "f64_mul (f64_div (Finite (14393458125 / 67108864))
      (Finite (27721726875 / 67108864))) (Finite 100)
      = Finite (7307261753187909 / 140737488355328)"
    by simp
qed (simp_all add: sizes_226 costs_226)

lemma program_226:
  "displayCostAnalysis [result_226] (megabytes (OriginalSize result_226)) =
     \<lparr>no_compression = Finite (27721726875 / 67108864),
      cost_rows =
        [\<lparr>cost_algorithm = Algorithm result_226,
          cost_month = Finite (6665011875 / 33554432),
          cost_saved = Finite (14391703125 / 67108864),
          cost_percent = Finite (7306370775893539 / 140737488355328)\<rparr>]\<rparr>"
proof (rule displayCostAnalysis_single)
  show "f64_sub (Finite (27721726875 / 67108864)) (Finite (6665011875 / 33554432))
      = Finite (14391703125 / 67108864)"
    by (simp add: f64_eval round64_eval)
  have "f64_div (Finite (14391703125 / 67108864)) (Finite (27721726875 / 67108864))
      = Finite (4676077296571865 / 9007199254740992)"
    by (simp add: f64_eval round64_eval)
  moreover have "f64_mul (Finite (4676077296571865 / 9007199254740992)) (Finite 100)
      = Finite (7306370775893539 / 140737488355328)"
    by (simp add: f64_eval round64_eval)
  ultimately show "f64_mul (f64_div (Finite (14391703125 / 67108864))
      (Finite (27721726875 / 67108864))) (Finite 100)
      = Finite (7306370775893539 / 140737488355328)"
    by simp
qed (simp_all add: sizes_226 costs_226)

text \<open>
  Where the exact result of an operation is between 0 and 4000000, the operation returns
  it with an absolute error of at most \<open>10 ^ - 8\<close>.
\<close>

lemma number_Finite: "is_number x \<Longrightarrow> 0 < valof x \<Longrightarrow> x = Finite (valof x)"
  by (cases x) (simp_all add: is_number_def is_nan_def is_inf_def)

lemma rounding_slack:
  fixes v x :: rat
  assumes "\<bar>v - x\<bar> \<le> \<bar>x\<bar> * pow2 (- 53) + pow2 (- 1075)" and "0 \<le> x" and "x \<le> 4000000"
  shows "\<bar>v - x\<bar> \<le> 1 / 100000000"
proof -
  have u: "pow2 (- 53) \<le> 1 / 1000000000000000" "0 < pow2 (- 53)"
    by (simp_all add: pow2_def)
  have e: "pow2 (- 1075) \<le> pow2 (- 53)"
    by (rule pow2_mono) simp
  have "x * pow2 (- 53) \<le> 4000000 * pow2 (- 53)"
    using assms(3) u(2) by (intro mult_right_mono) simp_all
  moreover from assms(1,2) have "\<bar>v - x\<bar> \<le> x * pow2 (- 53) + pow2 (- 1075)"
    by simp
  ultimately show ?thesis
    using u e by linarith
qed

lemma in_range:
  fixes x :: rat
  assumes "0 \<le> x" and "x \<le> 4000000"
  shows "\<bar>x\<bar> < pow2 1023"
proof -
  from assms have "\<bar>x\<bar> \<le> 2 ^ 80" by simp
  then show ?thesis by (rule small_enough)
qed

lemma mul_step:
  assumes "is_number x" and "is_number y"
    and "0 \<le> valof x * valof y" and "valof x * valof y \<le> 4000000"
  shows "is_number (f64_mul x y)
         \<and> \<bar>valof (f64_mul x y) - valof x * valof y\<bar> \<le> 1 / 100000000"
  using f64_mul_number [OF assms(1,2) in_range [OF assms(3,4)]]
    rounding_slack [OF _ assms(3,4)] by blast

lemma div_step:
  assumes "is_number x" and "is_number y" and "valof y \<noteq> 0"
    and "0 \<le> valof x / valof y" and "valof x / valof y \<le> 4000000"
  shows "is_number (f64_div x y)
         \<and> \<bar>valof (f64_div x y) - valof x / valof y\<bar> \<le> 1 / 100000000"
  using f64_div_number [OF assms(1,2,3) in_range [OF assms(4,5)]]
    rounding_slack [OF _ assms(4,5)] by blast

lemma sub_step:
  assumes "is_number x" and "is_number y"
    and "0 \<le> valof x - valof y" and "valof x - valof y \<le> 4000000"
  shows "is_number (f64_sub x y)
         \<and> \<bar>valof (f64_sub x y) - (valof x - valof y)\<bar> \<le> 1 / 100000000"
  using f64_sub_number [OF assms(1,2) in_range [OF assms(3,4)]]
    rounding_slack [OF _ assms(3,4)] by blast

text \<open>
  A size of 2.26 MB, give or take half a hundredth, against an original of 4.7 MB: the
  cost is within half a dollar of 198.61, the saving within half a dollar of 214.48, and
  the percentage within 0.15 of 51.9.
\<close>

lemma cost_near_226:
  fixes q :: rat
  assumes q: "\<bar>q - 226 / 100\<bar> \<le> 1 / 200"
  shows "\<exists>c s p. spec_cost (Finite 1000000) (Finite q) = Finite c
           \<and> f64_sub (Finite (52875 / 128)) (Finite c) = Finite s
           \<and> f64_mul (f64_div (Finite s) (Finite (52875 / 128))) (Finite 100) = Finite p
           \<and> \<bar>c - 19861 / 100\<bar> \<le> 1 / 2 \<and> \<bar>s - 21448 / 100\<bar> \<le> 1 / 2
           \<and> \<bar>p - 519 / 10\<bar> \<le> 3 / 20"
proof -
  have k: "f64_const (9 / 100) = Finite (3242591731706757 / 36028797018963968)"
    by (simp add: f64_eval round64_eval)
  have num: "is_number (Finite r)" for r
    by (simp add: is_number_def is_nan_def is_inf_def)
  define a where "a = f64_mul (Finite q) (Finite 1000000)"
  define b where "b = f64_div a (Finite 1024)"
  define c where "c = f64_mul b (Finite (3242591731706757 / 36028797018963968))"
  define s where "s = f64_sub (Finite (52875 / 128)) c"
  define d where "d = f64_div s (Finite (52875 / 128))"
  define p where "p = f64_mul d (Finite 100)"
  from q have q': "2255 / 1000 \<le> q" "q \<le> 2265 / 1000" by linarith+
  have a: "is_number a" "\<bar>valof a - q * 1000000\<bar> \<le> 1 / 100000000"
    using mul_step [of "Finite q" "Finite 1000000"] q' by (simp_all add: a_def num)
  then have a': "2254999 \<le> valof a" "valof a \<le> 2265001"
    using q' by linarith+
  have b: "is_number b" "\<bar>valof b - valof a / 1024\<bar> \<le> 1 / 100000000"
    using div_step [of a "Finite 1024"] a(1) a' by (simp_all add: b_def num)
  have b': "2202 \<le> valof b" "valof b \<le> 2212"
    using a(2) b(2) q' by linarith+
  have c: "is_number c"
    "\<bar>valof c - valof b * (3242591731706757 / 36028797018963968)\<bar> \<le> 1 / 100000000"
    using mul_step [of b "Finite (3242591731706757 / 36028797018963968)"] b(1) b'
    by (simp_all add: c_def num)
  have c': "19819 / 100 \<le> valof c" "valof c \<le> 19908 / 100"
    using a(2) b(2) c(2) q' by linarith+
  have s: "is_number s" "\<bar>valof s - (52875 / 128 - valof c)\<bar> \<le> 1 / 100000000"
    using sub_step [of "Finite (52875 / 128)" c] c(1) c' by (simp_all add: s_def num)
  have s': "21400 / 100 \<le> valof s" "valof s \<le> 21490 / 100"
    using s(2) c' by linarith+
  have d: "is_number d" "\<bar>valof d - valof s * (128 / 52875)\<bar> \<le> 1 / 100000000"
    using div_step [of s "Finite (52875 / 128)"] s(1) s' by (simp_all add: d_def num)
  have d': "518 / 1000 \<le> valof d" "valof d \<le> 521 / 1000"
    using d(2) s' by linarith+
  have p: "is_number p" "\<bar>valof p - valof d * 100\<bar> \<le> 1 / 100000000"
    using mul_step [of d "Finite 100"] d(1) d' by (simp_all add: p_def num)
  have p': "5180 / 100 \<le> valof p" "valof p \<le> 5205 / 100"
    using p(2) d(2) s' by linarith+
  have cF: "c = Finite (valof c)" using c(1) c' by (intro number_Finite) simp_all
  have sF: "s = Finite (valof s)" using s(1) s' by (intro number_Finite) simp_all
  have pF: "p = Finite (valof p)" using p(1) p' by (intro number_Finite) simp_all
  have "spec_cost (Finite 1000000) (Finite q) = Finite (valof c)"
    using cF by (simp add: spec_cost_def k a_def b_def c_def)
  moreover have "f64_sub (Finite (52875 / 128)) (Finite (valof c)) = Finite (valof s)"
    using sF cF by (simp add: s_def)
  moreover have "f64_mul (f64_div (Finite (valof s)) (Finite (52875 / 128))) (Finite 100)
      = Finite (valof p)"
    using pF sF by (simp add: p_def d_def)
  moreover have "\<bar>valof c - 19861 / 100\<bar> \<le> 1 / 2"
    using a(2) b(2) c(2) q' by linarith
  moreover have "\<bar>valof s - 21448 / 100\<bar> \<le> 1 / 2"
    using a(2) b(2) c(2) s(2) q' by linarith
  moreover have "\<bar>valof p - 519 / 10\<bar> \<le> 3 / 20"
    using a(2) b(2) c(2) s(2) d(2) p(2) q' by linarith
  ultimately show ?thesis by blast
qed

lemma printed_226_figures:
  assumes "close_to (1 / 200) (megabytes (CompressedSize r)) (226 / 100)"
  shows "shows_figures (1 / 2) (3 / 20) (displayCostAnalysis [r] (f64_const (47 / 10)))
           spec_figures"
proof -
  from assms obtain q where q: "megabytes (CompressedSize r) = Finite q"
    "\<bar>q - 226 / 100\<bar> \<le> 1 / 200"
    by (cases "megabytes (CompressedSize r)") (simp_all add: close_to_def)
  from cost_near_226 [OF q(2)] obtain c s p where
    c: "spec_cost (Finite 1000000) (Finite q) = Finite c"
    and s: "f64_sub (Finite (52875 / 128)) (Finite c) = Finite s"
    and p: "f64_mul (f64_div (Finite s) (Finite (52875 / 128))) (Finite 100) = Finite p"
    and near: "\<bar>c - 19861 / 100\<bar> \<le> 1 / 2" "\<bar>s - 21448 / 100\<bar> \<le> 1 / 2"
      "\<bar>p - 519 / 10\<bar> \<le> 3 / 20"
    by (elim exE conjE)
  have "displayCostAnalysis [r] (f64_const (47 / 10)) =
     \<lparr>no_compression = Finite (52875 / 128),
      cost_rows = [\<lparr>cost_algorithm = Algorithm r, cost_month = Finite c,
                    cost_saved = Finite s, cost_percent = Finite p\<rparr>]\<rparr>"
    by (rule displayCostAnalysis_single) (simp_all add: costs_226 q(1) c s p)
  with near show ?thesis
    by (simp add: shows_figures_def spec_figures_def close_to_def)
qed

lemma performance_returns:
  "\<exists>a. displayPerformanceAnalysis [r] = Returned a
       \<and> costs a = displayCostAnalysis [r] (megabytes (OriginalSize r))"
proof -
  obtain a where a: "displayPerformanceAnalysis [r] = Returned a"
    by (simp add: displayPerformanceAnalysis_def Let_def split: prod.splits)
  from analysis_costs [OF a] a show ?thesis by simp
qed

text \<open>
  C8: the cost without compression is \<open>originalSizeMB * 1000000 / 1024 * 0.09\<close> and the
  cost of an algorithm is the same formula over its compressed size in megabytes. For
  4.7 MB the first is 413.09 to the cent. For an algorithm that compresses to 2.26 MB
  the cost is approximately 198.61, the saving approximately 214.48, and the reduction
  about 51.9 percent. For every result whose size the reporter prints as 2.26 MB, the
  two amounts are within half a dollar, a quarter of a percent, of 198.61 and 214.48,
  and the percentage within 0.15 of 51.9. For the result of 2369470 bytes, printed as
  2.26 MB, the amounts are 198.61 and 214.48 to the cent, and the percentage 51.9 to
  one decimal. For the result of 2369782 bytes, the nearest to 2.26 MB, the amounts are
  within three cents of 198.61 and 214.48, and the percentage 51.9 to one decimal. The
  figures of the two results are the same when the analysis is reached through
  \<open>displayPerformanceAnalysis\<close>, which derives the 4.7 MB from the byte count.
\<close>

theorem cost_projection:
  "no_compression (displayCostAnalysis results originalSizeMB)
     = spec_cost (Finite 1000000) originalSizeMB
   \<and> map cost_month (cost_rows (displayCostAnalysis results originalSizeMB))
     = map (\<lambda>r. spec_cost (Finite 1000000) (megabytes (CompressedSize r))) results
   \<and> close_to (1 / 200)
        (no_compression (displayCostAnalysis results (f64_const (47 / 10)))) (41309 / 100)
   \<and> (\<forall>r. close_to (1 / 200) (megabytes (CompressedSize r)) (226 / 100) \<longrightarrow>
          shows_figures (1 / 2) (3 / 20)
            (displayCostAnalysis [r] (f64_const (47 / 10))) spec_figures)
   \<and> close_to (1 / 200) (megabytes (CompressedSize result_printed_226)) (226 / 100)
   \<and> shows_figures (1 / 200) (1 / 20)
        (displayCostAnalysis [result_printed_226] (f64_const (47 / 10))) spec_figures
   \<and> (\<exists>a. displayPerformanceAnalysis [result_printed_226] = Returned a
         \<and> shows_figures (1 / 200) (1 / 20) (costs a) spec_figures)
   \<and> close_to (1 / 1000000) (megabytes (CompressedSize result_226)) (226 / 100)
   \<and> shows_figures (3 / 100) (1 / 20)
        (displayCostAnalysis [result_226] (f64_const (47 / 10))) spec_figures
   \<and> (\<exists>a. displayPerformanceAnalysis [result_226] = Returned a
         \<and> shows_figures (3 / 100) (1 / 20) (costs a) spec_figures)"
proof (intro conjI allI impI)
  show "no_compression (displayCostAnalysis results originalSizeMB)
     = spec_cost (Finite 1000000) originalSizeMB"
    using displayCostAnalysis_spec [of results originalSizeMB] by simp
  show "map cost_month (cost_rows (displayCostAnalysis results originalSizeMB))
     = map (\<lambda>r. spec_cost (Finite 1000000) (megabytes (CompressedSize r))) results"
    using displayCostAnalysis_spec [of results originalSizeMB]
    by (simp add: cost_of_spec comp_def)
  show "close_to (1 / 200)
        (no_compression (displayCostAnalysis results (f64_const (47 / 10)))) (41309 / 100)"
    using displayCostAnalysis_spec [of results "f64_const (47 / 10)"]
    by (simp add: costs_226 close_to_def)
  show "shows_figures (1 / 2) (3 / 20)
          (displayCostAnalysis [r] (f64_const (47 / 10))) spec_figures"
    if "close_to (1 / 200) (megabytes (CompressedSize r)) (226 / 100)" for r
    using that by (rule printed_226_figures)
  show "close_to (1 / 200) (megabytes (CompressedSize result_printed_226)) (226 / 100)"
    by (simp add: sizes_226 close_to_def)
  show "shows_figures (1 / 200) (1 / 20)
        (displayCostAnalysis [result_printed_226] (f64_const (47 / 10))) spec_figures"
    by (simp add: cost_printed_226 shows_figures_def spec_figures_def close_to_def)
  show "\<exists>a. displayPerformanceAnalysis [result_printed_226] = Returned a
         \<and> shows_figures (1 / 200) (1 / 20) (costs a) spec_figures"
  proof -
    from performance_returns [of result_printed_226] obtain a where
      "displayPerformanceAnalysis [result_printed_226] = Returned a"
      "costs a = displayCostAnalysis [result_printed_226]
                   (megabytes (OriginalSize result_printed_226))"
      by (elim exE conjE)
    then show ?thesis
      by (intro exI [of _ a])
        (simp add: program_printed_226 shows_figures_def spec_figures_def close_to_def)
  qed
  show "close_to (1 / 1000000) (megabytes (CompressedSize result_226)) (226 / 100)"
    by (simp add: sizes_226 close_to_def)
  show "shows_figures (3 / 100) (1 / 20)
        (displayCostAnalysis [result_226] (f64_const (47 / 10))) spec_figures"
    by (simp add: cost_226 shows_figures_def spec_figures_def close_to_def)
  show "\<exists>a. displayPerformanceAnalysis [result_226] = Returned a
         \<and> shows_figures (3 / 100) (1 / 20) (costs a) spec_figures"
  proof -
    from performance_returns [of result_226] obtain a where
      "displayPerformanceAnalysis [result_226] = Returned a"
      "costs a = displayCostAnalysis [result_226] (megabytes (OriginalSize result_226))"
      by (elim exE conjE)
    then show ?thesis
      by (intro exI [of _ a])
        (simp add: program_226 shows_figures_def spec_figures_def close_to_def)
  qed
qed

theorem cost_projection_witness:
  "close_to (1 / 200) (megabytes (CompressedSize result_226)) (226 / 100)
   \<and> shows_figures (1 / 2) (3 / 20)
        (displayCostAnalysis [result_226] (f64_const (47 / 10))) spec_figures"
proof -
  have h: "close_to (1 / 200) (megabytes (CompressedSize result_226)) (226 / 100)"
    by (simp add: sizes_226 close_to_def)
  from cost_projection [of "[result_226]" "f64_const (47 / 10)"]
  have "\<forall>r. close_to (1 / 200) (megabytes (CompressedSize r)) (226 / 100) \<longrightarrow>
          shows_figures (1 / 2) (3 / 20)
            (displayCostAnalysis [r] (f64_const (47 / 10))) spec_figures"
    by (elim conjE)
  with h show ?thesis by simp
qed

section \<open>One document for every run\<close>

lemma inserted_append: "inserted (xs @ ys) = inserted xs @ inserted ys"
  by (induction xs rule: inserted.induct) simp_all

lemma inserted_driver:
  "inserted (snd (testCompression w algorithm compressor doc)) = []
   \<or> inserted (snd (testCompression w algorithm compressor doc))
       = [(''test_'' @ ToLower algorithm, doc)]"
  by (simp add: testCompression_def Let_def
      split: prod.splits option.splits sum.splits go_value.splits)

lemma inserted_driver_ok:
  "testCompression w algorithm compressor doc = (Returned (r, None), evs) \<Longrightarrow>
   inserted evs = [(''test_'' @ ToLower algorithm, doc)]"
  by (auto simp: testCompression_def Let_def
      split: prod.splits option.splits sum.splits go_value.splits)

lemma inserted_run_tests:
  "set (map snd (inserted (snd (run_tests w doc ts res)))) \<subseteq> {doc}"
proof (induction ts arbitrary: res)
  case Nil
  then show ?case by simp
next
  case (Cons t ts)
  obtain name compressor where t: "t = (name, compressor)" by (cases t)
  have d: "set (map snd (inserted (snd (testCompression w name compressor doc)))) \<subseteq> {doc}"
    using inserted_driver [of w name compressor doc] by auto
  show ?case
  proof (cases "testCompression w name compressor doc")
    case (Pair out evs)
    show ?thesis
    proof (cases out)
      case (Panicked p)
      with Pair t d show ?thesis by simp
    next
      case (Returned re)
      obtain r e where re: "re = (r, e)" by (cases re)
      show ?thesis
      proof (cases e)
        case None
        obtain out' evs' where rec: "run_tests w doc ts (res @ [r]) = (out', evs')"
          by (cases "run_tests w doc ts (res @ [r])")
        with Cons.IH [of "res @ [r]"] have "set (map snd (inserted evs')) \<subseteq> {doc}"
          by simp
        with Pair Returned re None t d rec show ?thesis
          by (simp add: inserted_append)
      next
        case (Some err)
        with Pair Returned re t d show ?thesis by simp
      qed
    qed
  qed
qed

lemma inserted_run_tests_ok:
  "run_tests w doc ts res = (Returned (rs, None), evs) \<Longrightarrow>
   inserted evs = map (\<lambda>t. (''test_'' @ ToLower (fst t), doc)) ts"
proof (induction ts arbitrary: res evs)
  case Nil
  then show ?case by simp
next
  case (Cons t ts)
  obtain name compressor where t: "t = (name, compressor)" by (cases t)
  obtain out evs1 where d: "testCompression w name compressor doc = (out, evs1)"
    by (cases "testCompression w name compressor doc")
  from Cons.prems t d obtain r where out: "out = Returned (r, None)"
    by (cases out) (auto split: option.splits prod.splits)
  obtain out' evs' where rec: "run_tests w doc ts (res @ [r]) = (out', evs')"
    by (cases "run_tests w doc ts (res @ [r])")
  with Cons.prems t d out have e: "out' = Returned (rs, None)" "evs = evs1 @ [Sleep 100] @ evs'"
    by simp_all
  from Cons.IH [of "res @ [r]" evs'] rec e(1)
  have "inserted evs' = map (\<lambda>t. (''test_'' @ ToLower (fst t), doc)) ts" by simp
  moreover from d out have "inserted evs1 = [(''test_'' @ ToLower name, doc)]"
    by (auto dest: inserted_driver_ok)
  ultimately show ?case
    using e(2) t by (simp add: inserted_append)
qed

lemma main_inserted:
  "set (map snd (inserted (events (main w oid now)))) \<subseteq> {generateLargeDocument oid now}"
proof -
  let ?doc = "generateLargeDocument oid now"
  obtain out evs where run: "runAllCompressionTests w ?doc = (out, evs)"
    by (cases "runAllCompressionTests w ?doc")
  with inserted_run_tests [of w ?doc tests "[]"]
  have evs: "set (map snd (inserted evs)) \<subseteq> {?doc}"
    by (simp add: runAllCompressionTests_def)
  show ?thesis
    using run evs
    by (auto simp: main_def Let_def inserted_append
        split: option.splits prod.splits outcome.splits)
qed

lemma main_completed:
  assumes "status (main w oid now) = Completed"
  shows "inserted (events (main w oid now))
           = map (\<lambda>t. (''test_'' @ ToLower (fst t), generateLargeDocument oid now)) tests"
proof -
  let ?doc = "generateLargeDocument oid now"
  obtain out evs where run: "runAllCompressionTests w ?doc = (out, evs)"
    by (cases "runAllCompressionTests w ?doc")
  from assms run obtain rs where out: "out = Returned (rs, None)"
    by (auto simp: main_def Let_def split: option.splits prod.splits outcome.splits)
  from run out have "inserted evs = map (\<lambda>t. (''test_'' @ ToLower (fst t), ?doc)) tests"
    by (auto simp: runAllCompressionTests_def dest: inserted_run_tests_ok)
  with assms run out show ?thesis
    by (auto simp: main_def Let_def inserted_append
        split: option.splits prod.splits outcome.splits)
qed


text \<open>
  C9: the document has a fixed composition: the sentence repeated 50000 times, 5000
  items (the item of every index from 0 to 4999), and 300000 bytes; the program builds
  it once, and every document it inserts is that same value (identifier and timestamp
  included); a run that completes inserts it three times, once per algorithm.
\<close>

theorem document_fixed_and_shared:
  "map_of (generateLargeDocument oid now) ''repetitive_text''
     = Some (VString (Repeat ''This is highly compressible repetitive text pattern. '' 50000))
   \<and> length (Repeat ''This is highly compressible repetitive text pattern. '' 50000)
       = 50000 * 53
   \<and> map_of (generateLargeDocument oid now) ''product_items''
       = Some (VMaps (map item [0..<5000]))
   \<and> length (map item [0..<5000]) = 5000
   \<and> map_of (generateLargeDocument oid now) ''binary_data''
       = Some (VBytes (map (\<lambda>i. of_nat (i mod 256)) [0..<300000]))
   \<and> length (map (\<lambda>i. of_nat (i mod 256) :: byte) [0..<300000]) = 300000
   \<and> set (map snd (inserted (events (main w oid now)))) \<subseteq> {generateLargeDocument oid now}
   \<and> (status (main w oid now) = Completed \<longrightarrow>
         inserted (events (main w oid now))
           = [(''test_snappy'', generateLargeDocument oid now),
              (''test_zlib'', generateLargeDocument oid now),
              (''test_zstd'', generateLargeDocument oid now)])"
proof -
  have fields:
    "map_of (generateLargeDocument oid now) ''repetitive_text''
       = Some (VString (Repeat ''This is highly compressible repetitive text pattern. '' 50000))"
    "map_of (generateLargeDocument oid now) ''product_items''
       = Some (VMaps (map item [0..<5000]))"
    "map_of (generateLargeDocument oid now) ''binary_data''
       = Some (VBytes (map (\<lambda>i. of_nat (i mod 256)) [0..<300000]))"
    by (simp_all add: generateLargeDocument_def item_block binary_block)
  have len: "length (Repeat ''This is highly compressible repetitive text pattern. '' 50000)
       = 50000 * 53"
    by (simp add: length_Repeat)
  have three: "status (main w oid now) = Completed \<longrightarrow>
         inserted (events (main w oid now))
           = [(''test_snappy'', generateLargeDocument oid now),
              (''test_zlib'', generateLargeDocument oid now),
              (''test_zstd'', generateLargeDocument oid now)]"
    using main_completed [of w oid now] by (simp add: tests_def ToLower_tests)
  from fields len main_inserted [of w oid now] three show ?thesis
    by simp
qed

theorem document_fixed_and_shared_witness:
  "status (main (quiet_world 1000 (VInt64 500)) sample_oid 0) = Completed
   \<and> inserted (events (main (quiet_world 1000 (VInt64 500)) sample_oid 0))
       = [(''test_snappy'', sample_doc), (''test_zlib'', sample_doc),
          (''test_zstd'', sample_doc)]"
proof -
  let ?w = "quiet_world 1000 (VInt64 500)"
  let ?r = "\<lambda>name. \<lparr>Algorithm = name, OriginalSize = 1000, CompressedSize = 500,
            ReductionPercent = Finite 50, CompressionRatio = Finite 2,
            InsertTime = 250000000\<rparr>"
  have run: "fst (runAllCompressionTests ?w (generateLargeDocument sample_oid 0))
      = Returned ([?r ''Snappy'', ?r ''Zlib'', ?r ''Zstd''], None)"
    by (simp add: runAllCompressionTests_def tests_def driver_eval)
  have half: "f64_div (Finite 50) (Finite 2) = Finite 25"
    by (simp add: f64_eval round64_eval)
  have chart: "displayComparisonChart ?w [?r ''Snappy'', ?r ''Zlib'', ?r ''Zstd'']
      = Returned [(''Snappy'', 25), (''Zlib'', 25), (''Zstd'', 25)]"
    by (simp add: half f64_to_int_def discard_fraction_def is_nan_def is_inf_def)
  obtain a where a: "displayPerformanceAnalysis [?r ''Snappy'', ?r ''Zlib'', ?r ''Zstd'']
      = Returned a"
    by (simp add: displayPerformanceAnalysis_def Let_def split: prod.splits)
  have size: "getDocumentSize ?w (generateLargeDocument sample_oid 0) = (1000, None)"
    by (simp add: getDocumentSize_def quiet_world_def)
  have conn: "connect_err (reply ?w []) = None"
    by (simp add: quiet_world_def quiet_reply_def)
  have completed: "status (main ?w sample_oid 0) = Completed"
    using run chart a size conn
    by (cases "runAllCompressionTests ?w (generateLargeDocument sample_oid 0)")
       (simp add: main_def displayResults_def Let_def)
  with document_fixed_and_shared [of sample_oid 0 ?w] show ?thesis
    by (simp add: sample_doc_def)
qed

section \<open>What the reporter receives\<close>

text \<open>
  The results that the orchestrator hands on have a reduction percentage that is not a
  NaN, whenever the encoded document is not empty: the reporter's comparisons are then
  those of a linear order.
\<close>

lemma f64_neg_not_nan: "x \<noteq> NaN \<Longrightarrow> f64_neg x \<noteq> NaN"
  by (cases x) simp_all

lemma f64_of_int64_not_nan: "f64_of_int64 n \<noteq> NaN"
  by (simp add: f64_of_int64_def round64_not_nan)

lemma reduction_not_nan:
  assumes "0 < sint original"
  shows "f64_mul
      (f64_sub (Finite 1) (f64_div (f64_of_int64 compressed) (f64_of_int64 original)))
      (Finite 100) \<noteq> NaN"
proof -
  from f64_of_int64_positive [OF assms] obtain v where
    v: "f64_of_int64 original = Finite v" "0 < v" by blast
  define xs where "xs = f64_of_int64 compressed"
  have xs: "xs \<noteq> NaN" by (simp add: xs_def f64_of_int64_not_nan)
  define d where "d = f64_div xs (Finite v)"
  have d: "d \<noteq> NaN"
    using xs v(2) round64_not_nan
    by (simp add: d_def f64_div_def is_nan_def is_inf_def is_zero_def
        signed_zero_def signed_inf_def Let_def)
  define t where "t = f64_sub (Finite 1) d"
  have t: "t \<noteq> NaN"
    using f64_neg_not_nan [OF d] round64_not_nan
    by (simp add: t_def f64_sub_def f64_add_def is_nan_def is_inf_def Let_def)
  have "f64_mul t (Finite 100) \<noteq> NaN"
    using t round64_not_nan
    by (simp add: f64_mul_def is_nan_def is_inf_def is_zero_def
        signed_zero_def signed_inf_def Let_def)
  then show ?thesis by (simp add: t_def d_def xs_def v(1))
qed

lemma driver_result_number:
  assumes "testCompression w algorithm compressor doc = (Returned (r, None), evs)"
    and "Marshal w doc = Inr m" and "0 < length m" and "length m < 2 ^ 63"
  shows "ReductionPercent r \<noteq> NaN"
proof -
  have "int (length m) < 2 ^ 63"
    using assms(4) by (simp add: of_nat_less_iff [of _ "2 ^ 63", where ?'a = int, simplified])
  then have "signed_take_bit 63 (int (length m)) = int (length m)"
    by (intro signed_take_bit_int_eq_self) simp_all
  then have "sint (of_nat (length m) :: int64) = int (length m)"
    using signed_of_nat [of "length m", where ?'a = int and ?'b = 64] by simp
  with assms(3) have pos: "0 < sint (of_nat (length m) :: int64)" by simp
  have "OriginalSize r = of_nat (length m)"
    "ReductionPercent r =
       f64_mul
         (f64_sub (Finite 1)
            (f64_div (f64_of_int64 (CompressedSize r)) (f64_of_int64 (OriginalSize r))))
         (Finite 100)"
    using assms(1,2)
    by (auto simp: testCompression_def getDocumentSize_def Let_def
        split: prod.splits option.splits sum.splits go_value.splits)
  with reduction_not_nan [OF pos] show ?thesis by simp
qed

lemma run_tests_results:
  "run_tests w doc ts res = (Returned (rs, None), evs) \<Longrightarrow>
   \<forall>r\<in>set rs. r \<in> set res
      \<or> (\<exists>t\<in>set ts. \<exists>evs'. testCompression w (fst t) (snd t) doc = (Returned (r, None), evs'))"
proof (induction ts arbitrary: res evs)
  case Nil
  then show ?case by auto
next
  case (Cons t ts)
  obtain name compressor where t: "t = (name, compressor)" by (cases t)
  obtain out evs1 where d: "testCompression w name compressor doc = (out, evs1)"
    by (cases "testCompression w name compressor doc")
  from Cons.prems t d obtain r where out: "out = Returned (r, None)"
    by (cases out) (auto split: option.splits prod.splits)
  obtain out' evs' where rec: "run_tests w doc ts (res @ [r]) = (out', evs')"
    by (cases "run_tests w doc ts (res @ [r])")
  with Cons.prems t d out have "out' = Returned (rs, None)" by simp
  with Cons.IH [of "res @ [r]" evs'] rec have
    "\<forall>x\<in>set rs. x \<in> set (res @ [r])
      \<or> (\<exists>t\<in>set ts. \<exists>evs'. testCompression w (fst t) (snd t) doc = (Returned (x, None), evs'))"
    by simp
  with t d out show ?case by fastforce
qed

lemma reporter_input_numbers:
  assumes "runAllCompressionTests w doc = (Returned (results, None), evs)"
    and "Marshal w doc = Inr m" and "0 < length m" and "length m < 2 ^ 63"
  shows "\<forall>r\<in>set results. ReductionPercent r \<noteq> NaN"
proof
  fix r assume "r \<in> set results"
  with run_tests_results [of w doc tests "[]" results evs] assms(1)
  obtain t evs' where "testCompression w (fst t) (snd t) doc = (Returned (r, None), evs')"
    by (auto simp: runAllCompressionTests_def)
  then show "ReductionPercent r \<noteq> NaN"
    using assms(2-4) by (rule driver_result_number)
qed

end
